theory Spec2Isabelle
  imports Main "HOL-Library.AList" "HOL-Library.Multiset"
begin

section \<open>Data model (shared/schema.ts)\<close>

text \<open>
  A date is kept as the text it was built from: no operation modelled here computes on it.
  Numbers are integers, as the schema's \<^verbatim>\<open>integer("position")\<close> and \<^verbatim>\<open>serial("id")\<close>
  columns are. The nullable columns of the \<^verbatim>\<open>tasks\<close> table are options. The fields
  \<^verbatim>\<open>id\<close>, \<^verbatim>\<open>type\<close> and \<^verbatim>\<open>description\<close> are written \<open>task_id\<close>, \<open>task_type\<close> and
  \<open>task_description\<close>.
\<close>

type_synonym date = string

record Task =
  task_id :: int
  title :: string
  task_description :: "string option"
  status :: string
  task_type :: string
  position :: "int option"
  dueDate :: "date option"
  userId :: "int option"
  createdAt :: "date option"

record InsertTask =
  i_title :: string
  i_description :: "string option"
  i_status :: string
  i_type :: string
  i_position :: "int option"
  i_dueDate :: "date option"
  i_userId :: "int option"

section \<open>The in-memory store (server/storage.ts, class MemStorage)\<close>

text \<open>
  \<^verbatim>\<open>tasks: Map<number, Task>\<close> is an association list in insertion order:
  \<^verbatim>\<open>Map.set\<close> on a present key replaces the value in place and on a new key appends, which
  is \<^const>\<open>AList.update\<close>; \<^verbatim>\<open>Map.get\<close> is \<^const>\<open>map_of\<close>; \<^verbatim>\<open>Map.values()\<close> is
  \<open>map snd\<close>; \<^verbatim>\<open>Map.delete\<close> is \<^const>\<open>AList.delete\<close>.
\<close>

type_synonym task_map = "(int \<times> Task) list"

record MemStorage =
  tasks :: task_map
  taskCurrentId :: int

text \<open>\<^verbatim>\<open>(t.position || 0)\<close>: a null position counts as 0.\<close>

definition pos0 :: "Task \<Rightarrow> int" where
  "pos0 t = (case position t of None \<Rightarrow> 0 | Some p \<Rightarrow> p)"

text \<open>
  \<^verbatim>\<open>Array.prototype.sort(cmp)\<close> is a stable sort. It is modelled as the stable insertion
  sort that places an element before the first later element it does not compare greater than.
\<close>

fun insertBy :: "('a \<Rightarrow> 'a \<Rightarrow> int) \<Rightarrow> 'a \<Rightarrow> 'a list \<Rightarrow> 'a list" where
  "insertBy cmp x [] = [x]"
| "insertBy cmp x (y # ys) = (if cmp x y \<le> 0 then x # y # ys else y # insertBy cmp x ys)"

definition jsSort :: "('a \<Rightarrow> 'a \<Rightarrow> int) \<Rightarrow> 'a list \<Rightarrow> 'a list" where
  "jsSort cmp xs = foldr (insertBy cmp) xs []"

text \<open>The comparator \<^verbatim>\<open>(a, b) => (a.position || 0) - (b.position || 0)\<close>.\<close>

definition byPosition :: "Task \<Rightarrow> Task \<Rightarrow> int" where
  "byPosition a b = pos0 a - pos0 b"

text \<open>
  The recurring expression
  \<^verbatim>\<open>Array.from(this.tasks.values()).filter(t => t.status === st).sort(byPosition)\<close>.
\<close>

definition columnOf :: "task_map \<Rightarrow> string \<Rightarrow> Task list" where
  "columnOf m st = jsSort byPosition (filter (\<lambda>t. status t = st) (map snd m))"

definition getAllTasks :: "MemStorage \<Rightarrow> Task list" where
  "getAllTasks s = map snd (tasks s)"

definition getTasksByStatus :: "string \<Rightarrow> MemStorage \<Rightarrow> Task list" where
  "getTasksByStatus st s = filter (\<lambda>t. status t = st) (map snd (tasks s))"

definition getTask :: "int \<Rightarrow> MemStorage \<Rightarrow> Task option" where
  "getTask k s = map_of (tasks s) k"

text \<open>\<^verbatim>\<open>Math.max(...xs)\<close> on a non-empty list.\<close>

fun mathMax :: "int list \<Rightarrow> int" where
  "mathMax [] = 0"
| "mathMax (x # xs) = fold max xs x"

text \<open>
  \<^verbatim>\<open>createTask\<close>. The clock value \<^verbatim>\<open>new Date()\<close> is the parameter \<open>now\<close>.
  \<^verbatim>\<open>x || null\<close> turns an empty string, and the number 0, into null.
\<close>

definition createTask :: "date \<Rightarrow> InsertTask \<Rightarrow> MemStorage \<Rightarrow> Task \<times> MemStorage" where
  "createTask now ins s =
    (let k = taskCurrentId s;
         tasksInColumn = filter (\<lambda>t. status t = i_status ins) (map snd (tasks s));
         p = (case i_position ins of
                Some q \<Rightarrow> q
              | None \<Rightarrow> if length tasksInColumn > 0
                         then mathMax (map pos0 tasksInColumn) + 1 else 0);
         task = \<lparr> task_id = k, title = i_title ins,
                  task_description = (case i_description ins of Some [] \<Rightarrow> None | d \<Rightarrow> d),
                  status = i_status ins, task_type = i_type ins, position = Some p,
                  dueDate = (case i_dueDate ins of Some [] \<Rightarrow> None | d \<Rightarrow> d),
                  userId = (if i_userId ins = Some 0 then None else i_userId ins),
                  createdAt = Some now \<rparr>
     in (task, s\<lparr> tasks := AList.update k task (tasks s), taskCurrentId := k + 1 \<rparr>))"

text \<open>
  The second sort of \<^verbatim>\<open>updateTaskStatus\<close> (\<^verbatim>\<open>finalTasksOrdering\<close>), with its comparator
  written out branch by branch.
\<close>

definition finalCmp :: "int \<Rightarrow> Task \<Rightarrow> Task \<Rightarrow> int" where
  "finalCmp k a b =
    (if task_id a = k then pos0 a - (if task_id b = k then pos0 a else pos0 b)
     else if task_id b = k then (if task_id a = k then pos0 b else pos0 a) - pos0 b
     else pos0 a - pos0 b)"

text \<open>
  The loop of the branch \<^verbatim>\<open>if (!toTop)\<close>: the task at index \<open>i\<close> of the ordering is
  rewritten with position \<open>i\<close> when its position differs.
\<close>

fun renumber :: "Task list \<Rightarrow> int \<Rightarrow> task_map \<Rightarrow> task_map" where
  "renumber [] i m = m"
| "renumber (t # ts) i m =
     renumber ts (i + 1)
       (if position t \<noteq> Some i then AList.update (task_id t) (t\<lparr>position := Some i\<rparr>) m else m)"

text \<open>
  The loop of the branch \<^verbatim>\<open>else\<close> (top placement): every task of the target column but the
  moved one is rewritten with its position plus one.
\<close>

fun shiftDown :: "int \<Rightarrow> Task list \<Rightarrow> task_map \<Rightarrow> task_map" where
  "shiftDown k [] m = m"
| "shiftDown k (t # ts) m =
     shiftDown k ts
       (if task_id t = k then m
        else AList.update (task_id t) (t\<lparr>position := Some (pos0 t + 1)\<rparr>) m)"

text \<open>\<^verbatim>\<open>if (targetTaskId)\<close>: an absent id and the id 0 are both falsy.\<close>

definition truthy :: "int option \<Rightarrow> bool" where
  "truthy x = (case x of None \<Rightarrow> False | Some v \<Rightarrow> v \<noteq> 0)"

text \<open>
  \<^verbatim>\<open>updateTaskStatus(id, status, targetPosition?, targetTaskId?, placeBefore = false)\<close>.
  The result is the returned task (\<open>None\<close> for \<^verbatim>\<open>undefined\<close>) and the store afterwards.
  The parameter \<open>placeBefore\<close> is not read by the body, as in the source.
\<close>

definition updateTaskStatus ::
  "int \<Rightarrow> string \<Rightarrow> int option \<Rightarrow> int option \<Rightarrow> bool \<Rightarrow> MemStorage \<Rightarrow> Task option \<times> MemStorage"
where
  "updateTaskStatus k st targetPosition targetTaskId placeBefore s =
    (case map_of (tasks s) k of
       None \<Rightarrow> (None, s)
     | Some task \<Rightarrow>
        (let toTop0 = (targetPosition = None \<and> targetTaskId = None);
             (insertPosition, toTop) =
               (if truthy targetTaskId then
                  (case map_of (tasks s) (the targetTaskId) of
                     Some targetTask \<Rightarrow> (pos0 targetTask, False)
                   | None \<Rightarrow> (0, toTop0))
                else (case targetPosition of
                        Some p \<Rightarrow> (p, toTop0)
                      | None \<Rightarrow> (0, toTop0)));
             updatedTask = task\<lparr>status := st, position := Some insertPosition\<rparr>;
             m1 = AList.update k updatedTask (tasks s);
             tasksInTargetColumn = columnOf m1 st;
             finalTasksOrdering = jsSort (finalCmp k) tasksInTargetColumn;
             m2 = (if \<not> toTop then renumber finalTasksOrdering 0 m1
                   else shiftDown k tasksInTargetColumn m1)
         in (Some updatedTask, s\<lparr>tasks := m2\<rparr>)))"

text \<open>\<^verbatim>\<open>updateTaskPosition(id, position)\<close>.\<close>

definition updateTaskPosition :: "int \<Rightarrow> int \<Rightarrow> MemStorage \<Rightarrow> Task option \<times> MemStorage" where
  "updateTaskPosition k p s =
    (case map_of (tasks s) k of
       None \<Rightarrow> (None, s)
     | Some task \<Rightarrow>
        (let updatedTask = task\<lparr>position := Some p\<rparr>
         in (Some updatedTask, s\<lparr>tasks := AList.update k updatedTask (tasks s)\<rparr>)))"

text \<open>\<^verbatim>\<open>Array.prototype.findIndex\<close>: the first index where the test holds, or -1.\<close>

fun findIndex :: "('a \<Rightarrow> bool) \<Rightarrow> 'a list \<Rightarrow> int" where
  "findIndex P [] = - 1"
| "findIndex P (x # xs) =
     (if P x then 0 else (let r = findIndex P xs in if r = - 1 then - 1 else r + 1))"

text \<open>
  \<^verbatim>\<open>updatedTasks.map((t, idx) => { ...; this.tasks.set(t.id, updatedTask); return updatedTask })\<close>:
  the returned array, and the writes in array order.
\<close>

fun withIndex :: "Task list \<Rightarrow> int \<Rightarrow> Task list" where
  "withIndex [] i = []"
| "withIndex (t # ts) i = t\<lparr>position := Some i\<rparr> # withIndex ts (i + 1)"

definition setAll :: "Task list \<Rightarrow> task_map \<Rightarrow> task_map" where
  "setAll ts m = fold (\<lambda>t. AList.update (task_id t) t) ts m"

text \<open>
  \<^verbatim>\<open>reorderTaskInColumn(taskId, targetTaskId, placeAfter = false)\<close>. It never throws: on
  every failed validation it returns a column without writing.
  \<^verbatim>\<open>task?.status || targetTask?.status || ''\<close> skips an absent task and an empty status.
\<close>

definition reorderTaskInColumn ::
  "int \<Rightarrow> int \<Rightarrow> bool \<Rightarrow> MemStorage \<Rightarrow> Task list \<times> MemStorage"
where
  "reorderTaskInColumn taskId targetTaskId placeAfter s =
    (case (map_of (tasks s) taskId, map_of (tasks s) targetTaskId) of
       (Some task, Some targetTask) \<Rightarrow>
         if status task \<noteq> status targetTask then (columnOf (tasks s) (status task), s)
         else
          (let tasksInColumn = columnOf (tasks s) (status task);
               updatedTasks = filter (\<lambda>t. task_id t \<noteq> task_id task) tasksInColumn;
               targetIndex = findIndex (\<lambda>t. task_id t = task_id targetTask) updatedTasks
           in if targetIndex = - 1 then (tasksInColumn, s)
              else
               (let insertPosition = (if placeAfter then targetIndex + 1 else targetIndex);
                    updatedTasks' = take (nat insertPosition) updatedTasks @ [task]
                                    @ drop (nat insertPosition) updatedTasks;
                    result = withIndex updatedTasks' 0
                in (result, s\<lparr>tasks := setAll result (tasks s)\<rparr>)))
     | (task, targetTask) \<Rightarrow>
         (let st = (case task of
                      Some t \<Rightarrow> if status t \<noteq> [] then status t
                                else (case targetTask of Some u \<Rightarrow> status u | None \<Rightarrow> [])
                    | None \<Rightarrow> (case targetTask of Some u \<Rightarrow> status u | None \<Rightarrow> []))
          in (columnOf (tasks s) st, s)))"

text \<open>\<^verbatim>\<open>deleteTask(id)\<close>: \<^verbatim>\<open>Map.delete\<close> tells whether the key was present.\<close>

definition deleteTask :: "int \<Rightarrow> MemStorage \<Rightarrow> bool \<times> MemStorage" where
  "deleteTask k s = (map_of (tasks s) k \<noteq> None, s\<lparr>tasks := AList.delete k (tasks s)\<rparr>)"

text \<open>
  The constructor: \<^verbatim>\<open>initializeSampleTasks\<close> creates the nine sample tasks in order, from
  an empty map and \<^verbatim>\<open>taskCurrentId = 1\<close>. Every sample gives a position and a description
  and no user. One clock value stands for the nine readings of \<^verbatim>\<open>new Date()\<close>.
\<close>

definition sampleTask :: "string \<Rightarrow> string \<Rightarrow> string \<Rightarrow> string \<Rightarrow> int \<Rightarrow> date option \<Rightarrow> InsertTask" where
  "sampleTask ttl descr st ty p due =
     \<lparr> i_title = ttl, i_description = Some descr, i_status = st, i_type = ty,
       i_position = Some p, i_dueDate = due, i_userId = None \<rparr>"

definition sampleTasks :: "InsertTask list" where
  "sampleTasks =
    [sampleTask ''Implement drag and drop functionality''
       ''Create a custom drag and drop system that works on both desktop and mobile devices.''
       ''todo'' ''feature'' 0 (Some ''2023-10-21''),
     sampleTask ''Fix mobile responsiveness issues''
       ''Board doesn't render correctly on small screens. Implement responsive design.''
       ''todo'' ''bug'' 1 (Some ''2023-10-18''),
     sampleTask ''Add visual feedback to drag operations''
       ''Create visual indicators when dragging cards between columns.''
       ''todo'' ''enhancement'' 2 (Some ''2023-10-22''),
     sampleTask ''Research touch events implementation''
       ''Explore best practices for implementing touch events for mobile drag and drop functionality.''
       ''todo'' ''research'' 3 (Some ''2023-10-20''),
     sampleTask ''Set up basic column structure''
       ''Create the three main columns (To Do, In Progress, Done) with header styling.''
       ''in-progress'' ''feature'' 0 (Some ''2023-10-19''),
     sampleTask ''Create API documentation''
       ''Document all the server endpoints used for data persistence.''
       ''in-progress'' ''documentation'' 1 (Some ''2023-10-23''),
     sampleTask ''Implement task edit functionality''
       ''Create a form for editing existing task cards with validation.''
       ''in-progress'' ''enhancement'' 2 (Some ''2023-10-20''),
     sampleTask ''Set up project structure''
       ''Initialize React project with Tailwind CSS and set up folder structure.''
       ''done'' ''feature'' 0 None,
     sampleTask ''Design card and column UI''
       ''Create the visual design for task cards and columns using Tailwind CSS.''
       ''done'' ''enhancement'' 1 None]"

definition newMemStorage :: "date \<Rightarrow> MemStorage" where
  "newMemStorage now =
     fold (\<lambda>task s. snd (createTask now task s)) sampleTasks \<lparr> tasks = [], taskCurrentId = 1 \<rparr>"

section \<open>HTTP routes (server/routes.ts)\<close>

text \<open>
  A response is its status code and its JSON body. Request bodies are the records the zod
  schemas accept, so the branch for a body that fails validation has no input here.
  \<^verbatim>\<open>parseInt(req.params.id)\<close> is an option: \<open>None\<close> stands for \<^verbatim>\<open>NaN\<close>. The storage
  methods never throw, so the \<^verbatim>\<open>catch\<close> branches (status 500) have no input either.
\<close>

datatype json = JsonTask "Task option" | JsonTasks "Task list" | JsonMessage string | NoContent

type_synonym response = "nat \<times> json"

record StatusBody =
  b_status :: string
  b_targetTaskId :: "int option"
  b_position :: "int option"
  b_toTop :: "bool option"
  b_forceTop :: "bool option"
  b_isNewColumn :: "bool option"
  b_placeBefore :: "bool option"

record ReorderBody =
  r_targetTaskId :: int
  r_position :: "string option"

text \<open>An optional boolean passed where the callee's parameter defaults to false, or tested
  in a condition.\<close>

definition orFalse :: "bool option \<Rightarrow> bool" where
  "orFalse x = (case x of None \<Rightarrow> False | Some v \<Rightarrow> v)"

text \<open>\<^verbatim>\<open>app.get("/api/tasks/:id")\<close>.\<close>

definition getTaskRoute :: "int option \<Rightarrow> MemStorage \<Rightarrow> response \<times> MemStorage" where
  "getTaskRoute idParam s =
    (case idParam of
       None \<Rightarrow> ((400, JsonMessage ''Invalid task ID''), s)
     | Some k \<Rightarrow>
        (case getTask k s of
           None \<Rightarrow> ((404, JsonMessage ''Task not found''), s)
         | Some task \<Rightarrow> ((200, JsonTask (Some task)), s)))"

text \<open>\<^verbatim>\<open>app.patch("/api/tasks/:id/status")\<close>: the move operation.\<close>

definition patchTaskStatus :: "int option \<Rightarrow> StatusBody \<Rightarrow> MemStorage \<Rightarrow> response \<times> MemStorage" where
  "patchTaskStatus idParam b s =
    (case idParam of
       None \<Rightarrow> ((400, JsonMessage ''Invalid task ID''), s)
     | Some k \<Rightarrow>
        (case getTask k s of
           None \<Rightarrow> ((404, JsonMessage ''Task not found''), s)
         | Some task \<Rightarrow>
            if status task \<noteq> b_status b then
              (if truthy (b_targetTaskId b) then
                 (let (updatedTask, s') =
                        updateTaskStatus k (b_status b) None (b_targetTaskId b)
                          (orFalse (b_placeBefore b)) s
                  in ((200, JsonTask updatedTask), s'))
               else if b_position b \<noteq> None then
                 (let (updatedTask, s') = updateTaskStatus k (b_status b) (b_position b) None False s
                  in ((200, JsonTask updatedTask), s'))
               else if orFalse (b_toTop b) \<or> orFalse (b_forceTop b) \<or> orFalse (b_isNewColumn b) then
                 (let (updatedTask, s') = updateTaskStatus k (b_status b) None None False s
                  in ((200, JsonTask updatedTask), s'))
               else
                 (let (updatedTask, s') = updateTaskStatus k (b_status b) None None False s
                  in ((200, JsonTask updatedTask), s')))
            else if truthy (b_targetTaskId b) \<and> status task = b_status b then
              (let placeAfter = (case b_placeBefore b of None \<Rightarrow> False | Some pb \<Rightarrow> \<not> pb);
                   (reorderedTasks, s') =
                      reorderTaskInColumn k (the (b_targetTaskId b)) placeAfter s;
                   updatedTask = find (\<lambda>t. task_id t = k) reorderedTasks
               in ((200, JsonTask (Some (case updatedTask of Some u \<Rightarrow> u | None \<Rightarrow> task))), s'))
            else
              (let (updatedTask, s') =
                     updateTaskStatus k (b_status b) (b_position b) (b_targetTaskId b)
                       (orFalse (b_placeBefore b)) s
               in ((200, JsonTask updatedTask), s'))))"

text \<open>\<^verbatim>\<open>app.patch("/api/tasks/:id/position")\<close>.\<close>

definition patchTaskPosition :: "int option \<Rightarrow> int \<Rightarrow> MemStorage \<Rightarrow> response \<times> MemStorage" where
  "patchTaskPosition idParam p s =
    (case idParam of
       None \<Rightarrow> ((400, JsonMessage ''Invalid task ID''), s)
     | Some k \<Rightarrow>
        (case updateTaskPosition k p s of
           (None, s') \<Rightarrow> ((404, JsonMessage ''Task not found''), s')
         | (Some updatedTask, s') \<Rightarrow> ((200, JsonTask (Some updatedTask)), s')))"

text \<open>\<^verbatim>\<open>app.post("/api/tasks/:id/reorder")\<close>: the same-column reorder operation.
  \<^verbatim>\<open>(t.position ?? 0)\<close> agrees with \<^const>\<open>pos0\<close>.\<close>

definition postTaskReorder :: "int option \<Rightarrow> ReorderBody \<Rightarrow> MemStorage \<Rightarrow> response \<times> MemStorage" where
  "postTaskReorder idParam b s =
    (case idParam of
       None \<Rightarrow> ((400, JsonMessage ''Invalid task ID''), s)
     | Some k \<Rightarrow>
        if k = r_targetTaskId b then ((400, JsonMessage ''Cannot reorder a task with itself''), s)
        else
         (case (getTask k s, getTask (r_targetTaskId b) s) of
            (Some sourceTask, Some targetTask) \<Rightarrow>
              (let isMovingDown = (status sourceTask = status targetTask
                                   \<and> pos0 sourceTask < pos0 targetTask);
                   placeAfter = (r_position b = Some ''after''
                                 \<or> (isMovingDown \<and> r_position b \<noteq> Some ''before''));
                   (updatedTasks, s') = reorderTaskInColumn k (r_targetTaskId b) placeAfter s
               in ((200, JsonTasks updatedTasks), s'))
          | _ \<Rightarrow> ((404, JsonMessage ''Source or target task not found''), s)))"

text \<open>\<^verbatim>\<open>app.delete("/api/tasks/:id")\<close>.\<close>

definition deleteTaskRoute :: "int option \<Rightarrow> MemStorage \<Rightarrow> response \<times> MemStorage" where
  "deleteTaskRoute idParam s =
    (case idParam of
       None \<Rightarrow> ((400, JsonMessage ''Invalid task ID''), s)
     | Some k \<Rightarrow>
        (case deleteTask k s of
           (False, s') \<Rightarrow> ((404, JsonMessage ''Task not found''), s')
         | (True, s') \<Rightarrow> ((204, NoContent), s')))"

section \<open>Commands (client/src/contexts/CommandHistoryContext.tsx)\<close>

text \<open>
  A thrown \<^verbatim>\<open>Error\<close> is a value carrying its message. An asynchronous effect
  (\<^verbatim>\<open>() => Promise<void>\<close>) maps the world to the rejection of its promise (\<open>None\<close> when
  it resolves) and the world afterwards. The world a command acts on is the server's
  store, reached through \<^verbatim>\<open>apiRequest\<close>, and the client's query cache, of which only the
  number of invalidations is kept. Console output is not modelled.
\<close>

datatype error = Error string

record World =
  server :: MemStorage
  invalidations :: nat

type_synonym effect = "World \<Rightarrow> error option \<times> World"

text \<open>The requests the commands send, by endpoint.\<close>

datatype request =
    GetTasks
  | GetTaskById int
  | PatchStatus int StatusBody
  | PatchPosition int int
  | PostReorder int ReorderBody
  | DeleteTaskById int

text \<open>
  \<^verbatim>\<open>apiRequest\<close> (client/src/lib/queryClient) is not among the sources: it is the parameter
  \<open>api\<close>, any function from a request and the server's store to the parsed response, or the
  error thrown, and the store afterwards.
\<close>

type_synonym api = "request \<Rightarrow> MemStorage \<Rightarrow> (error + json) \<times> MemStorage"

definition apiRequest :: "api \<Rightarrow> request \<Rightarrow> World \<Rightarrow> (error + json) \<times> World" where
  "apiRequest api r w = (case api r (server w) of (res, s') \<Rightarrow> (res, w\<lparr>server := s'\<rparr>))"

text \<open>\<^verbatim>\<open>queryClient.invalidateQueries({ queryKey: ['/api/tasks'] })\<close>: marks the cached task
  list stale; it writes nothing to the server.\<close>

definition invalidateQueries :: "World \<Rightarrow> World" where
  "invalidateQueries w = w\<lparr>invalidations := invalidations w + 1\<rparr>"

text \<open>What \<^verbatim>\<open>customExecuteFn\<close> is called with: the fetched response or the bare id.\<close>

datatype fnArg = ArgResponse json | ArgId int

text \<open>\<^verbatim>\<open>response && typeof response === 'object'\<close>.\<close>

fun isObject :: "json \<Rightarrow> bool" where
  "isObject (JsonTask None) = False"
| "isObject (JsonTask (Some t)) = True"
| "isObject (JsonTasks ts) = True"
| "isObject (JsonMessage m) = True"
| "isObject NoContent = False"

text \<open>
  The implementations of \<^verbatim>\<open>interface Command\<close>: the two classes of the file with their
  private fields, and any other object with the three members.
  \<open>MoveTaskCommand taskId taskTitle sourceStatus targetStatus customExecuteFn\<close>;
  \<open>ReorderTaskCommand status allTasks previousOrder newOrder executeFn\<close>;
  \<open>OtherCommand description execute undo\<close>.
\<close>

datatype Command =
    MoveTaskCommand int string string string "(fnArg \<Rightarrow> string \<Rightarrow> effect) option"
  | ReorderTaskCommand string "Task list" "Task list" "Task list" effect
  | OtherCommand string effect effect

text \<open>Decimal text of a number, for the template \<^verbatim>\<open>`Task #${id}`\<close>.\<close>

fun digitsOf :: "nat \<Rightarrow> string" where
  "digitsOf n =
     (if n < 10 then [char_of (48 + n)] else digitsOf (n div 10) @ [char_of (48 + n mod 10)])"

definition showInt :: "int \<Rightarrow> string" where
  "showInt i = (if i < 0 then ''-'' @ digitsOf (nat (- i)) else digitsOf (nat i))"

text \<open>The constructor of \<^verbatim>\<open>MoveTaskCommand\<close>: \<^verbatim>\<open>taskObj: Task | number\<close>, or anything else
  at run time.\<close>

datatype taskObj = TaskObject Task | TaskNumber int | InvalidObject

definition newMoveTaskCommand ::
  "taskObj \<Rightarrow> string \<Rightarrow> string \<Rightarrow> (fnArg \<Rightarrow> string \<Rightarrow> effect) option \<Rightarrow> Command"
where
  "newMoveTaskCommand obj sourceStatus targetStatus customExecuteFn =
    (case obj of
       TaskNumber n \<Rightarrow>
         MoveTaskCommand n (''Task #'' @ showInt n) sourceStatus targetStatus customExecuteFn
     | TaskObject t \<Rightarrow>
         MoveTaskCommand (task_id t)
           (if title t \<noteq> [] then title t else ''Task #'' @ showInt (task_id t))
           sourceStatus targetStatus customExecuteFn
     | InvalidObject \<Rightarrow>
         MoveTaskCommand (- 1) ''Unknown Task'' sourceStatus targetStatus customExecuteFn)"

text \<open>The constructor of \<^verbatim>\<open>ReorderTaskCommand\<close> saves the column's order for undo.\<close>

definition newReorderTaskCommand :: "string \<Rightarrow> Task list \<Rightarrow> effect \<Rightarrow> Command" where
  "newReorderTaskCommand st allTasks executeFn =
     ReorderTaskCommand st allTasks
       (jsSort byPosition (filter (\<lambda>t. status t = st) allTasks)) [] executeFn"

text \<open>The getter \<^verbatim>\<open>description\<close>.\<close>

fun description :: "Command \<Rightarrow> string" where
  "description (MoveTaskCommand k ttl src tgt fn) =
     ''Move task '' @ [CHR 0x22] @ ttl @ [CHR 0x22] @ '' from '' @ src @ '' to '' @ tgt"
| "description (ReorderTaskCommand st allTasks prev new fn) =
     ''Reorder task in '' @ st @ '' column''"
| "description (OtherCommand d ex un) = d"

text \<open>The body both move requests send: \<^verbatim>\<open>{ status, position: 0, forceTop: true }\<close>.\<close>

definition forceTopBody :: "string \<Rightarrow> StatusBody" where
  "forceTopBody st =
     \<lparr> b_status = st, b_targetTaskId = None, b_position = Some 0, b_toTop = None,
       b_forceTop = Some True, b_isNewColumn = None, b_placeBefore = None \<rparr>"

text \<open>
  \<^verbatim>\<open>execute()\<close>. The result is the rejection, the command object afterwards (only
  \<^verbatim>\<open>ReorderTaskCommand\<close> assigns a field, \<^verbatim>\<open>newOrder\<close>) and the world afterwards. In
  \<^verbatim>\<open>MoveTaskCommand\<close> the inner \<^verbatim>\<open>try\<close> covers the fetch and the first call of the custom
  function; its \<^verbatim>\<open>catch\<close> calls the custom function again with the bare id.
\<close>

fun execute :: "api \<Rightarrow> Command \<Rightarrow> World \<Rightarrow> error option \<times> Command \<times> World" where
  "execute api (MoveTaskCommand k ttl src tgt fn) w =
     (if k \<le> 0 then (Some (Error ''Invalid task ID''), MoveTaskCommand k ttl src tgt fn, w)
      else
       (case (case fn of
                Some f \<Rightarrow>
                  (case apiRequest api (GetTaskById k) w of
                     (Inr response, w1) \<Rightarrow>
                       (case (if isObject response then f (ArgResponse response) tgt w1
                              else f (ArgId k) tgt w1) of
                          (None, w2) \<Rightarrow> (None, w2)
                        | (Some e, w2) \<Rightarrow> f (ArgId k) tgt w2)
                   | (Inl e, w1) \<Rightarrow> f (ArgId k) tgt w1)
              | None \<Rightarrow>
                  (case apiRequest api (PatchStatus k (forceTopBody tgt)) w of
                     (Inr response, w1) \<Rightarrow> (None, w1)
                   | (Inl e, w1) \<Rightarrow> (Some e, w1))) of
          (None, w3) \<Rightarrow> (None, MoveTaskCommand k ttl src tgt fn, invalidateQueries w3)
        | (Some e, w3) \<Rightarrow> (Some e, MoveTaskCommand k ttl src tgt fn, w3)))"
| "execute api (ReorderTaskCommand st allTasks prev new fn) w =
     (case fn w of
        (Some e, w1) \<Rightarrow> (Some e, ReorderTaskCommand st allTasks prev new fn, w1)
      | (None, w1) \<Rightarrow>
         (case apiRequest api GetTasks (invalidateQueries w1) of
            (Inl e, w2) \<Rightarrow> (Some e, ReorderTaskCommand st allTasks prev new fn, w2)
          | (Inr response, w2) \<Rightarrow>
              (None,
               ReorderTaskCommand st allTasks prev
                 (case response of
                    JsonTasks ts \<Rightarrow> jsSort byPosition (filter (\<lambda>t. status t = st) ts)
                  | _ \<Rightarrow> new) fn,
               w2)))"
| "execute api (OtherCommand d ex un) w =
     (case ex w of (r, w1) \<Rightarrow> (r, OtherCommand d ex un, w1))"

text \<open>
  \<^verbatim>\<open>undo()\<close>. No implementation assigns a field, so the result is the rejection and the
  world. \<^verbatim>\<open>MoveTaskCommand.undo\<close> throws on an invalid id before its \<^verbatim>\<open>try\<close>, and its
  \<^verbatim>\<open>catch\<close> does not rethrow. \<^verbatim>\<open>ReorderTaskCommand.undo\<close> only invalidates the cache.
\<close>

fun undoCommand :: "api \<Rightarrow> Command \<Rightarrow> World \<Rightarrow> error option \<times> World" where
  "undoCommand api (MoveTaskCommand k ttl src tgt fn) w =
     (if k \<le> 0 then (Some (Error ''Invalid task ID''), w)
      else
       (case apiRequest api (PatchStatus k (forceTopBody src)) w of
          (Inr response, w1) \<Rightarrow> (None, invalidateQueries w1)
        | (Inl e, w1) \<Rightarrow> (None, w1)))"
| "undoCommand api (ReorderTaskCommand st allTasks prev new fn) w = (None, invalidateQueries w)"
| "undoCommand api (OtherCommand d ex un) w = un w"

section \<open>The command log (CommandHistoryProvider)\<close>

text \<open>
  The provider's state: \<^verbatim>\<open>commandHistory\<close> (the spec's \<open>past\<close>), \<^verbatim>\<open>redoStack\<close> (the spec's
  \<open>future\<close>), and the toasts shown so far. \<open>Toast title description destructive\<close>.
\<close>

datatype Toast = Toast string string bool

record History =
  commandHistory :: "Command list"
  redoStack :: "Command list"
  toasts :: "Toast list"

definition canUndo :: "History \<Rightarrow> bool" where
  "canUndo h = (length (commandHistory h) > 0)"

definition canRedo :: "History \<Rightarrow> bool" where
  "canRedo h = (length (redoStack h) > 0)"

text \<open>\<^verbatim>\<open>String.prototype.includes\<close>.\<close>

fun startsWith :: "string \<Rightarrow> string \<Rightarrow> bool" where
  "startsWith s [] = True"
| "startsWith [] (c # cs) = False"
| "startsWith (d # ds) (c # cs) = (d = c \<and> startsWith ds cs)"

fun includesStr :: "string \<Rightarrow> string \<Rightarrow> bool" where
  "includesStr [] n = (n = [])"
| "includesStr (c # cs) n = (startsWith (c # cs) n \<or> includesStr cs n)"

text \<open>
  \<^verbatim>\<open>executeCommand\<close>, \<^verbatim>\<open>undo\<close> and \<^verbatim>\<open>redo\<close>. The first component of the result is the
  rejection of the promise the function returns: every branch of the source resolves.
\<close>

definition executeCommand ::
  "api \<Rightarrow> Command \<Rightarrow> History \<Rightarrow> World \<Rightarrow> error option \<times> History \<times> World"
where
  "executeCommand api command h w =
    (case execute api command w of
       (None, command', w') \<Rightarrow>
         (None, h\<lparr>commandHistory := commandHistory h @ [command'], redoStack := []\<rparr>, w')
     | (Some e, command', w') \<Rightarrow>
         (let isDragOperation = includesStr (description command) ''Move task''
          in (None,
              (if \<not> isDragOperation
               then h\<lparr>toasts := toasts h @
                       [Toast ''Action failed'' ''Could not complete the requested action.'' True]\<rparr>
               else h),
              w')))"

definition undo :: "api \<Rightarrow> History \<Rightarrow> World \<Rightarrow> error option \<times> History \<times> World" where
  "undo api h w =
    (if \<not> canUndo h then (None, h, w)
     else
      (let lastCommand = last (commandHistory h)
       in case undoCommand api lastCommand w of
            (None, w') \<Rightarrow>
              (None,
               h\<lparr>commandHistory := butlast (commandHistory h),
                 redoStack := redoStack h @ [lastCommand],
                 toasts := toasts h @
                   [Toast ''Undo successful'' (''Undid: '' @ description lastCommand) False]\<rparr>,
               w')
          | (Some e, w') \<Rightarrow>
              (None,
               h\<lparr>toasts := toasts h @
                  [Toast ''Undo failed'' ''Could not undo the last action.'' True]\<rparr>,
               w')))"

definition redo :: "api \<Rightarrow> History \<Rightarrow> World \<Rightarrow> error option \<times> History \<times> World" where
  "redo api h w =
    (if \<not> canRedo h then (None, h, w)
     else
      (let lastUndoneCommand = last (redoStack h)
       in case execute api lastUndoneCommand w of
            (None, command', w') \<Rightarrow>
              (None,
               h\<lparr>redoStack := butlast (redoStack h),
                 commandHistory := commandHistory h @ [command'],
                 toasts := toasts h @
                   [Toast ''Redo successful'' (''Redid: '' @ description command') False]\<rparr>,
               w')
          | (Some e, command', w') \<Rightarrow>
              (None,
               h\<lparr>toasts := toasts h @
                  [Toast ''Redo failed'' ''Could not redo the action.'' True]\<rparr>,
               w')))"

text \<open>
  The histories the provider can hold: it starts with both stacks empty and its state is
  written by these three functions only. The world and the behaviour of the network may
  differ from call to call.
\<close>

inductive reachable :: "History \<Rightarrow> bool" where
  initial: "reachable \<lparr>commandHistory = [], redoStack = [], toasts = []\<rparr>"
| after_execute: "reachable h \<Longrightarrow> reachable (fst (snd (executeCommand api command h w)))"
| after_undo: "reachable h \<Longrightarrow> reachable (fst (snd (undo api h w)))"
| after_redo: "reachable h \<Longrightarrow> reachable (fst (snd (redo api h w)))"

section \<open>The middleware variant of the log (client/src/middleware)\<close>

text \<open>
  The store of middleware/store.ts keeps a second command log in the slice
  \<^verbatim>\<open>commandHistory: { past, future }\<close> of its state, initially two empty arrays. The other
  slices (tasks, isLoading, error, filters) are neither read nor written by the code below.
\<close>

record CommandHistoryState =
  past :: "Command list"
  future :: "Command list"

definition initialState :: CommandHistoryState where
  "initialState = \<lparr> past = [], future = [] \<rparr>"

text \<open>
  The actions of the command history, by \<^verbatim>\<open>ActionType\<close>, with their payloads. The payload
  of an error action is the message of the error caught.
\<close>

datatype Action =
    EXECUTE_COMMAND Command
  | EXECUTE_COMMAND_SUCCESS Command
  | EXECUTE_COMMAND_ERROR string
  | UNDO_COMMAND
  | UNDO_COMMAND_SUCCESS Command
  | UNDO_COMMAND_ERROR string
  | REDO_COMMAND
  | REDO_COMMAND_SUCCESS Command
  | REDO_COMMAND_ERROR string

text \<open>
  \<^verbatim>\<open>commandHistoryMiddleware\<close> (middleware/commandHistory.ts), on one action. The result is
  the list of actions it passes to \<^verbatim>\<open>api.dispatch\<close>, the store's state and the world
  afterwards. Each case builds \<^verbatim>\<open>updatedState\<close> and then only dispatches the success
  action: the local is bound here as in the source and, as in the source, used by nothing.
  The variable \<^verbatim>\<open>state\<close> of \<^verbatim>\<open>createMiddlewareChain\<close> (middleware/core.ts) is assigned by
  \<^verbatim>\<open>updateState\<close> alone, which the middleware does not call, so the state returned is the
  state read.
\<close>

definition commandHistoryMiddleware ::
  "api \<Rightarrow> Action \<Rightarrow> CommandHistoryState \<Rightarrow> World \<Rightarrow> Action list \<times> CommandHistoryState \<times> World"
where
  "commandHistoryMiddleware api action state w =
    (case action of
       EXECUTE_COMMAND command \<Rightarrow>
         (case execute api command w of
            (None, command', w') \<Rightarrow>
              (let updatedState = \<lparr> past = past state @ [command'], future = [] \<rparr>
               in ([EXECUTE_COMMAND_SUCCESS command'], state, w'))
          | (Some (Error message), command', w') \<Rightarrow>
              ([EXECUTE_COMMAND_ERROR message], state, w'))
     | UNDO_COMMAND \<Rightarrow>
         (if length (past state) = 0 then ([], state, w)
          else
           (let commandToUndo = last (past state)
            in case undoCommand api commandToUndo w of
                 (None, w') \<Rightarrow>
                   (let updatedState = \<lparr> past = butlast (past state),
                                          future = commandToUndo # future state \<rparr>
                    in ([UNDO_COMMAND_SUCCESS commandToUndo], state, w'))
               | (Some (Error message), w') \<Rightarrow> ([UNDO_COMMAND_ERROR message], state, w')))
     | REDO_COMMAND \<Rightarrow>
         (case future state of
            [] \<Rightarrow> ([], state, w)
          | commandToRedo # rest \<Rightarrow>
             (case execute api commandToRedo w of
                (None, command', w') \<Rightarrow>
                  (let updatedState = \<lparr> past = past state @ [command'], future = rest \<rparr>
                   in ([REDO_COMMAND_SUCCESS command'], state, w'))
              | (Some (Error message), command', w') \<Rightarrow>
                  ([REDO_COMMAND_ERROR message], state, w')))
     | _ \<Rightarrow> ([], state, w))"

text \<open>
  \<^verbatim>\<open>store.dispatch\<close>: the action runs through the chain logger, api, command history, and
  so does every action the command history dispatches in turn. For the actions above, the
  logger only writes to the console and the api middleware has no case, so the chain is
  the command history middleware.
\<close>

definition dispatch :: "api \<Rightarrow> Action \<Rightarrow> CommandHistoryState \<Rightarrow> World \<Rightarrow> CommandHistoryState \<times> World" where
  "dispatch api action state w =
    (case commandHistoryMiddleware api action state w of
       (dispatched, state1, w1) \<Rightarrow>
         fold (\<lambda>a (state2, w2).
                 case commandHistoryMiddleware api a state2 w2 of
                   (dispatched', state3, w3) \<Rightarrow> (state3, w3))
              dispatched (state1, w1))"

text \<open>
  The hook \<^verbatim>\<open>useMiddlewareCommandHistory\<close>: its \<^verbatim>\<open>executeCommand\<close> dispatches the action
  \<^verbatim>\<open>EXECUTE_COMMAND\<close>, and its \<^verbatim>\<open>canUndo\<close> and \<^verbatim>\<open>canRedo\<close> read the lengths of the stacks.
  The names carry the suffix \<open>Mw\<close>, the provider having the same ones.
\<close>

definition executeCommandMw ::
  "api \<Rightarrow> Command \<Rightarrow> CommandHistoryState \<Rightarrow> World \<Rightarrow> CommandHistoryState \<times> World"
where
  "executeCommandMw api command state w = dispatch api (EXECUTE_COMMAND command) state w"

definition canUndoMw :: "CommandHistoryState \<Rightarrow> bool" where
  "canUndoMw state = (length (past state) > 0)"

definition canRedoMw :: "CommandHistoryState \<Rightarrow> bool" where
  "canRedoMw state = (length (future state) > 0)"

section \<open>Instances for the examples\<close>

text \<open>
  Two instances of the parameter \<open>api\<close>. \<open>serverApi\<close> answers a request with the route
  of routes.ts and throws when the status is 400 or more, as a fetch wrapper that checks
  \<^verbatim>\<open>res.ok\<close> does. \<open>offlineApi\<close> is a network that fails every request before it reaches
  the server.
\<close>

definition serverApi :: api where
  "serverApi r s =
    (case (case r of
             GetTasks \<Rightarrow> ((200, JsonTasks (getAllTasks s)), s)
           | GetTaskById k \<Rightarrow> getTaskRoute (Some k) s
           | PatchStatus k b \<Rightarrow> patchTaskStatus (Some k) b s
           | PatchPosition k p \<Rightarrow> patchTaskPosition (Some k) p s
           | PostReorder k b \<Rightarrow> postTaskReorder (Some k) b s
           | DeleteTaskById k \<Rightarrow> deleteTaskRoute (Some k) s) of
       ((code, body), s') \<Rightarrow>
         if code \<ge> 400 then (Inl (Error ''Request failed''), s') else (Inr body, s'))"

definition offlineApi :: api where
  "offlineApi r s = (Inl (Error ''Failed to fetch''), s)"

text \<open>A task with the given id, title, status and position, and a store holding a list of
  tasks under their ids.\<close>

definition mkTask :: "int \<Rightarrow> string \<Rightarrow> string \<Rightarrow> int \<Rightarrow> Task" where
  "mkTask k ttl st p =
     \<lparr> task_id = k, title = ttl, task_description = None, status = st, task_type = ''feature'',
       position = Some p, dueDate = None, userId = None, createdAt = None \<rparr>"

definition storeOf :: "Task list \<Rightarrow> MemStorage" where
  "storeOf ts = \<lparr> tasks = map (\<lambda>t. (task_id t, t)) ts, taskCurrentId = int (length ts) + 1 \<rparr>"

text \<open>Column "todo" holding A (position 0), B (position 1), C (position 2).\<close>

definition boardABC :: MemStorage where
  "boardABC = storeOf [mkTask 1 ''A'' ''todo'' 0, mkTask 2 ''B'' ''todo'' 1, mkTask 3 ''C'' ''todo'' 2]"

text \<open>Column "todo" holding A (position 0) and B (position 1); column "done" empty.\<close>

definition boardAB :: MemStorage where
  "boardAB = storeOf [mkTask 1 ''A'' ''todo'' 0, mkTask 2 ''B'' ''todo'' 1]"

text \<open>Bodies of move requests: \<^verbatim>\<open>{ status, toTop: true }\<close> and
  \<^verbatim>\<open>{ status, targetTaskId, placeBefore }\<close>.\<close>

definition toTopBody :: "string \<Rightarrow> StatusBody" where
  "toTopBody st =
     \<lparr> b_status = st, b_targetTaskId = None, b_position = None, b_toTop = Some True,
       b_forceTop = None, b_isNewColumn = None, b_placeBefore = None \<rparr>"

definition targetBody :: "string \<Rightarrow> int \<Rightarrow> bool option \<Rightarrow> StatusBody" where
  "targetBody st target pb =
     \<lparr> b_status = st, b_targetTaskId = Some target, b_position = None, b_toTop = None,
       b_forceTop = None, b_isNewColumn = None, b_placeBefore = pb \<rparr>"

text \<open>The id, status and position of every task of a store, in the store's order.\<close>

definition summary :: "MemStorage \<Rightarrow> (int \<times> string \<times> int option) list" where
  "summary s = map (\<lambda>(j, t). (j, status t, position t)) (tasks s)"

definition worldOf :: "MemStorage \<Rightarrow> World" where
  "worldOf s = \<lparr> server = s, invalidations = 0 \<rparr>"

definition emptyHistory :: History where
  "emptyHistory = \<lparr>commandHistory = [], redoStack = [], toasts = []\<rparr>"

text \<open>Effects for commands of the examples: one that resolves and one that rejects.\<close>

definition resolves :: effect where
  "resolves w = (None, w)"

definition rejects :: effect where
  "rejects w = (Some (Error ''failed''), w)"

text \<open>Commands of the examples: a move of task 1 from "todo" to "done" with the default
  request, a command of another kind whose undo rejects, one whose execute rejects, and a
  reorder of column "todo" whose closure asks the server to place task 3 before task 1.\<close>

definition exampleMove :: Command where
  "exampleMove = newMoveTaskCommand (TaskNumber 1) ''todo'' ''done'' None"

definition exampleOther :: Command where
  "exampleOther = OtherCommand ''Rename board'' resolves rejects"

definition exampleFailing :: Command where
  "exampleFailing = OtherCommand ''Rename board'' rejects resolves"

definition exampleReorder :: Command where
  "exampleReorder =
     newReorderTaskCommand ''todo'' (getAllTasks boardABC)
       (\<lambda>w. case apiRequest serverApi
                   (PostReorder 3 \<lparr>r_targetTaskId = 1, r_position = Some ''before''\<rparr>) w of
               (Inr response, w') \<Rightarrow> (None, w')
             | (Inl e, w') \<Rightarrow> (Some e, w'))"

text \<open>The history and the world after \<open>exampleMove\<close> was executed on the board A, B.\<close>

definition movedHistory :: History where
  "movedHistory = fst (snd (executeCommand serverApi exampleMove emptyHistory (worldOf boardAB)))"

definition movedWorld :: World where
  "movedWorld = snd (snd (executeCommand serverApi exampleMove emptyHistory (worldOf boardAB)))"

section \<open>Auxiliary notions for the proofs\<close>

text \<open>The guard both methods of \<^verbatim>\<open>MoveTaskCommand\<close> start with, as a predicate on commands.\<close>

fun validId :: "Command \<Rightarrow> bool" where
  "validId (MoveTaskCommand k ttl src tgt fn) = (k > 0)"
| "validId (ReorderTaskCommand st allTasks prev new fn) = True"
| "validId (OtherCommand d ex un) = True"

text \<open>The private field \<^verbatim>\<open>previousOrder\<close> of a \<^verbatim>\<open>ReorderTaskCommand\<close>.\<close>

fun previousOrder :: "Command \<Rightarrow> Task list" where
  "previousOrder (ReorderTaskCommand st allTasks prev new fn) = prev"
| "previousOrder c = []"

text \<open>
  The store's invariant: the keys of the map are distinct, and every task is stored under
  its own id. Every \<^verbatim>\<open>tasks.set\<close> of the class writes a task under its id.
\<close>

definition wellFormed :: "task_map \<Rightarrow> bool" where
  "wellFormed m = (distinct (map fst m) \<and> (\<forall>(j, t) \<in> set m. task_id t = j))"

text \<open>
  The positions of a column, read in the column's order (ascending position), are
  0, 1, ..., N - 1.
\<close>

definition dense :: "task_map \<Rightarrow> string \<Rightarrow> bool" where
  "dense m st =
     (map position (columnOf m st) = map (\<lambda>n. Some (int n)) [0..<length (columnOf m st)])"

text \<open>The index of the task with a given id in a list, and the task a renumbering pass
  over the list \<open>ts\<close>, counting from \<open>i\<close>, leaves in place of a stored task.\<close>

fun rank :: "int \<Rightarrow> Task list \<Rightarrow> nat option" where
  "rank k [] = None"
| "rank k (t # ts) = (if task_id t = k then Some 0 else map_option Suc (rank k ts))"

definition reposition :: "Task list \<Rightarrow> int \<Rightarrow> Task \<Rightarrow> Task" where
  "reposition ts i u =
     (case rank (task_id u) ts of None \<Rightarrow> u | Some n \<Rightarrow> u\<lparr>position := Some (i + int n)\<rparr>)"

text \<open>The task the top-placement pass leaves in place of a stored task: shifted down by one
  when it is in the column (its id is in \<open>ids\<close>) and is not the moved task \<open>k\<close>.\<close>

definition shifted :: "int \<Rightarrow> int set \<Rightarrow> Task \<Rightarrow> Task" where
  "shifted k ids u =
     (if task_id u \<noteq> k \<and> task_id u \<in> ids then u\<lparr>position := Some (pos0 u + 1)\<rparr> else u)"

text \<open>The position \<^verbatim>\<open>updateTaskStatus\<close> first writes to the moved task
  (\<^verbatim>\<open>insertPosition\<close>).\<close>

definition insertPositionOf :: "int option \<Rightarrow> int option \<Rightarrow> task_map \<Rightarrow> int" where
  "insertPositionOf tp tt m =
     (if truthy tt then (case map_of m (the tt) of Some targetTask \<Rightarrow> pos0 targetTask | None \<Rightarrow> 0)
      else (case tp of Some p \<Rightarrow> p | None \<Rightarrow> 0))"

section \<open>Evaluation of the examples\<close>

lemmas eval_defs =
  exampleMove_def exampleOther_def exampleFailing_def exampleReorder_def
  newMoveTaskCommand_def newReorderTaskCommand_def apiRequest_def serverApi_def offlineApi_def
  patchTaskStatus_def patchTaskPosition_def postTaskReorder_def getTaskRoute_def
  getTask_def getAllTasks_def boardAB_def boardABC_def storeOf_def mkTask_def forceTopBody_def
  truthy_def orFalse_def updateTaskStatus_def updateTaskPosition_def reorderTaskInColumn_def
  columnOf_def jsSort_def byPosition_def pos0_def finalCmp_def setAll_def
  invalidateQueries_def worldOf_def emptyHistory_def resolves_def rejects_def
  executeCommand_def undo_def redo_def canUndo_def canRedo_def Let_def
  toTopBody_def targetBody_def dense_def wellFormed_def

lemma showInt_1: "showInt 1 = ''1''"
  by code_simp

lemma exampleMove_execute:
  "execute serverApi exampleMove (worldOf boardAB)
     = (None, exampleMove,
        \<lparr>server = storeOf [mkTask 1 ''A'' ''done'' 0, mkTask 2 ''B'' ''todo'' 1],
          invalidations = 1\<rparr>)"
  by (simp add: eval_defs)

lemma movedHistory_eq:
  "movedHistory = \<lparr>commandHistory = [] @ [MoveTaskCommand 1 ''Task #1'' ''todo'' ''done'' None],
                   redoStack = [], toasts = []\<rparr>"
  by (simp add: movedHistory_def eval_defs showInt_1)

lemma movedWorld_eq:
  "movedWorld = \<lparr>server = storeOf [mkTask 1 ''A'' ''done'' 0, mkTask 2 ''B'' ''todo'' 1],
                 invalidations = 1\<rparr>"
  by (simp add: movedWorld_def eval_defs showInt_1)

lemma wellFormed_boardABC: "wellFormed (tasks boardABC)"
  by (simp add: eval_defs)

lemma wellFormed_boardAB: "wellFormed (tasks boardAB)"
  by (simp add: eval_defs)

section \<open>The store: sorting, renumbering and the invariant\<close>

lemma insertBy_byPosition: "insertBy byPosition x ys = insort_key pos0 x ys"
  by (induction ys) (auto simp: byPosition_def)

lemma jsSort_byPosition: "jsSort byPosition xs = sort_key pos0 xs"
proof -
  have "insertBy byPosition = insort_key pos0"
    by (intro ext) (rule insertBy_byPosition)
  then show ?thesis by (simp add: jsSort_def sort_key_def)
qed

lemma mset_insertBy: "mset (insertBy cmp x ys) = add_mset x (mset ys)"
  by (induction ys) auto

lemma mset_jsSort: "mset (jsSort cmp xs) = mset xs"
  by (induction xs) (auto simp: jsSort_def mset_insertBy)

lemma rank_None_iff: "rank k ts = None \<longleftrightarrow> k \<notin> task_id ` set ts"
  by (induction ts) auto

lemma status_reposition [simp]: "status (reposition ts i u) = status u"
  by (simp add: reposition_def split: option.splits)

lemma task_id_reposition [simp]: "task_id (reposition ts i u) = task_id u"
  by (simp add: reposition_def split: option.splits)

lemma wellFormed_lookup:
  "wellFormed m \<Longrightarrow> (j, u) \<in> set m \<Longrightarrow> map_of m j = Some u \<and> task_id u = j"
  by (auto simp: wellFormed_def)

lemma keys_map: "map fst (map (\<lambda>(j, u). (j, g j u)) m) = map fst m"
  by (induction m) auto

lemma wellFormed_map:
  assumes "wellFormed m" and "\<And>j u. task_id (g j u) = task_id u"
  shows "wellFormed (map (\<lambda>(j, u). (j, g j u)) m)"
  unfolding wellFormed_def keys_map using assms by (auto simp: wellFormed_def)

lemma update_as_map:
  assumes "wellFormed m" and "(task_id t, t) \<in> set m"
  shows "AList.update (task_id t) (t\<lparr>position := p\<rparr>) m
           = map (\<lambda>(j, u). (j, if j = task_id t then u\<lparr>position := p\<rparr> else u)) m"
  using assms
proof (induction m)
  case Nil
  then show ?case by simp
next
  case (Cons a m)
  obtain j u where a: "a = (j, u)" by (cases a)
  show ?case
  proof (cases "j = task_id t")
    case True
    with Cons.prems a have u: "u = t"
      by (auto simp: wellFormed_def rev_image_eqI)
    from Cons.prems a True have "task_id t \<notin> fst ` set m"
      by (auto simp: wellFormed_def)
    then have "map (\<lambda>(j, u). (j, if j = task_id t then u\<lparr>position := p\<rparr> else u)) m = m"
      by (induction m) auto
    with a True u show ?thesis by simp
  next
    case False
    with Cons.prems a have "wellFormed m" "(task_id t, t) \<in> set m"
      by (auto simp: wellFormed_def)
    with Cons.IH a False show ?thesis by simp
  qed
qed

lemma entry_is_snapshot:
  "wellFormed m \<Longrightarrow> (task_id t, t) \<in> set m \<Longrightarrow> (j, u) \<in> set m \<Longrightarrow> j = task_id t \<Longrightarrow> u = t"
  by (auto simp: wellFormed_def dest: eq_key_imp_eq_value)

lemma reposition_step:
  assumes wf: "wellFormed m" and d: "distinct (map task_id (t # ts))"
    and e: "\<forall>t'\<in>set (t # ts). (task_id t', t') \<in> set m"
  shows "wellFormed (AList.update (task_id t) (t\<lparr>position := Some i\<rparr>) m)"
    and "\<forall>t'\<in>set ts. (task_id t', t') \<in> set (AList.update (task_id t) (t\<lparr>position := Some i\<rparr>) m)"
    and "map (\<lambda>(j, u). (j, reposition ts (i + 1) u))
           (AList.update (task_id t) (t\<lparr>position := Some i\<rparr>) m)
         = map (\<lambda>(j, u). (j, reposition (t # ts) i u)) m"
proof -
  let ?G = "\<lambda>(j, u). (j, if j = task_id t then u\<lparr>position := Some i\<rparr> else u)"
  let ?m1 = "map ?G m"
  from e have tm: "(task_id t, t) \<in> set m" by simp
  have upd: "AList.update (task_id t) (t\<lparr>position := Some i\<rparr>) m = ?m1"
    by (rule update_as_map [OF wf tm])
  have wf1: "wellFormed ?m1"
    by (rule wellFormed_map [OF wf]) simp
  from d have nt: "task_id t \<notin> task_id ` set ts" by auto
  have in1: "\<forall>t'\<in>set ts. (task_id t', t') \<in> set ?m1"
  proof
    fix t' assume t': "t' \<in> set ts"
    with e nt have "(task_id t', t') \<in> set m" and "task_id t' \<noteq> task_id t"
      by (auto simp: image_iff)
    then show "(task_id t', t') \<in> set ?m1"
      by (force simp: image_iff)
  qed
  have eq: "map (\<lambda>(j, u). (j, reposition ts (i + 1) u)) ?m1
              = map (\<lambda>(j, u). (j, reposition (t # ts) i u)) m"
  proof -
    have "\<And>j u. (j, u) \<in> set m \<Longrightarrow>
        reposition ts (i + 1) (if j = task_id t then u\<lparr>position := Some i\<rparr> else u)
          = reposition (t # ts) i u"
    proof -
      fix j u assume "(j, u) \<in> set m"
      with wf have ju: "task_id u = j" by (auto simp: wellFormed_def)
      show "reposition ts (i + 1) (if j = task_id t then u\<lparr>position := Some i\<rparr> else u)
          = reposition (t # ts) i u"
      proof (cases "j = task_id t")
        case True
        with nt have "rank j ts = None" by (simp add: rank_None_iff)
        with True ju show ?thesis by (simp add: reposition_def)
      next
        case False
        with ju show ?thesis
          by (cases "rank j ts") (auto simp: reposition_def)
      qed
    qed
    then show ?thesis by (auto simp: o_def)
  qed
  show "wellFormed (AList.update (task_id t) (t\<lparr>position := Some i\<rparr>) m)"
    using wf1 upd by simp
  show "\<forall>t'\<in>set ts. (task_id t', t') \<in> set (AList.update (task_id t) (t\<lparr>position := Some i\<rparr>) m)"
    using in1 upd by simp
  show "map (\<lambda>(j, u). (j, reposition ts (i + 1) u))
           (AList.update (task_id t) (t\<lparr>position := Some i\<rparr>) m)
         = map (\<lambda>(j, u). (j, reposition (t # ts) i u)) m"
    using eq upd by simp
qed

lemma map_reposition_Nil: "map (\<lambda>(j, u). (j, reposition [] i u)) m = m"
  by (induction m) (auto simp: reposition_def)

lemma renumber_as_map:
  assumes "wellFormed m" and "distinct (map task_id ts)"
    and "\<forall>t\<in>set ts. (task_id t, t) \<in> set m"
  shows "renumber ts i m = map (\<lambda>(j, u). (j, reposition ts i u)) m"
  using assms
proof (induction ts arbitrary: i m)
  case Nil
  show ?case by (simp add: map_reposition_Nil)
next
  case (Cons t ts)
  let ?m1 = "AList.update (task_id t) (t\<lparr>position := Some i\<rparr>) m"
  note st = reposition_step [OF Cons.prems, of i]
  have triv: "position t = Some i \<Longrightarrow> ?m1 = m"
  proof -
    assume p: "position t = Some i"
    from Cons.prems have "(task_id t, t) \<in> set m" by simp
    from wellFormed_lookup [OF Cons.prems(1) this] have "map_of m (task_id t) = Some t" by simp
    moreover from p have "t\<lparr>position := Some i\<rparr> = t" by simp
    ultimately show "?m1 = m" by (simp add: update_triv)
  qed
  have "renumber (t # ts) i m = renumber ts (i + 1) ?m1"
    using triv by (cases "position t = Some i") simp_all
  also from Cons.prems have "distinct (map task_id ts)" by simp
  then have "renumber ts (i + 1) ?m1 = map (\<lambda>(j, u). (j, reposition ts (i + 1) u)) ?m1"
    using st(1) st(2) by (intro Cons.IH)
  also note st(3)
  finally show ?case .
qed

lemma setAll_as_map:
  assumes "wellFormed m" and "distinct (map task_id ts)"
    and "\<forall>t\<in>set ts. (task_id t, t) \<in> set m"
  shows "setAll (withIndex ts i) m = map (\<lambda>(j, u). (j, reposition ts i u)) m"
  using assms
proof (induction ts arbitrary: i m)
  case Nil
  show ?case by (simp add: map_reposition_Nil setAll_def)
next
  case (Cons t ts)
  let ?m1 = "AList.update (task_id t) (t\<lparr>position := Some i\<rparr>) m"
  note st = reposition_step [OF Cons.prems, of i]
  have "setAll (withIndex (t # ts) i) m = setAll (withIndex ts (i + 1)) ?m1"
    by (simp add: setAll_def)
  also from Cons.prems have "distinct (map task_id ts)" by simp
  then have "setAll (withIndex ts (i + 1)) ?m1 = map (\<lambda>(j, u). (j, reposition ts (i + 1) u)) ?m1"
    using st(1) st(2) by (intro Cons.IH)
  also note st(3)
  finally show ?case .
qed

lemma shiftDown_as_map:
  assumes "wellFormed m" and "distinct (map task_id ts)"
    and "\<forall>t\<in>set ts. (task_id t, t) \<in> set m"
  shows "shiftDown k ts m = map (\<lambda>(j, u). (j, shifted k (task_id ` set ts) u)) m"
  using assms
proof (induction ts arbitrary: m)
  case Nil
  have "map (\<lambda>(j, u). (j, shifted k {} u)) m = m"
    by (induction m) (auto simp: shifted_def)
  then show ?case by simp
next
  case (Cons t ts)
  from Cons.prems have d: "distinct (map task_id ts)" and nt: "task_id t \<notin> task_id ` set ts"
    and tm: "(task_id t, t) \<in> set m" and e: "\<forall>t'\<in>set ts. (task_id t', t') \<in> set m"
    by auto
  show ?case
  proof (cases "task_id t = k")
    case True
    have "shiftDown k (t # ts) m = shiftDown k ts m" using True by simp
    also have "\<dots> = map (\<lambda>(j, u). (j, shifted k (task_id ` set ts) u)) m"
      by (rule Cons.IH [OF Cons.prems(1) d e])
    also have "\<dots> = map (\<lambda>(j, u). (j, shifted k (task_id ` set (t # ts)) u)) m"
      using True by (auto simp: shifted_def)
    finally show ?thesis .
  next
    case False
    let ?G = "\<lambda>(j, u). (j, if j = task_id t then u\<lparr>position := Some (pos0 t + 1)\<rparr> else u)"
    let ?m1 = "map ?G m"
    have upd: "AList.update (task_id t) (t\<lparr>position := Some (pos0 t + 1)\<rparr>) m = ?m1"
      by (rule update_as_map [OF Cons.prems(1) tm])
    have wf1: "wellFormed ?m1"
      by (rule wellFormed_map [OF Cons.prems(1)]) simp
    have in1: "\<forall>t'\<in>set ts. (task_id t', t') \<in> set ?m1"
    proof
      fix t' assume t': "t' \<in> set ts"
      with e nt have "(task_id t', t') \<in> set m" and "task_id t' \<noteq> task_id t"
        by (auto simp: image_iff)
      then show "(task_id t', t') \<in> set ?m1"
        by (force simp: image_iff)
    qed
    have "shiftDown k (t # ts) m = shiftDown k ts ?m1"
      using False upd by simp
    also have "\<dots> = map (\<lambda>(j, u). (j, shifted k (task_id ` set ts) u)) ?m1"
      by (rule Cons.IH [OF wf1 d in1])
    also have "\<dots> = map (\<lambda>(j, u). (j, shifted k (task_id ` set (t # ts)) u)) m"
    proof -
      have "\<And>j u. (j, u) \<in> set m \<Longrightarrow>
          shifted k (task_id ` set ts) (if j = task_id t then u\<lparr>position := Some (pos0 t + 1)\<rparr> else u)
            = shifted k (task_id ` set (t # ts)) u"
      proof -
        fix j u assume ju: "(j, u) \<in> set m"
        with Cons.prems(1) have id: "task_id u = j" by (auto simp: wellFormed_def)
        show "shifted k (task_id ` set ts) (if j = task_id t then u\<lparr>position := Some (pos0 t + 1)\<rparr> else u)
            = shifted k (task_id ` set (t # ts)) u"
        proof (cases "j = task_id t")
          case True
          from entry_is_snapshot [OF Cons.prems(1) tm ju True] have "u = t" .
          with True nt False id show ?thesis by (simp add: shifted_def)
        next
          case False
          with id show ?thesis by (simp add: shifted_def)
        qed
      qed
      then show ?thesis by (auto simp: o_def)
    qed
    finally show ?thesis .
  qed
qed

lemma column_of_map:
  assumes "\<And>u. status (g u) = status u"
  shows "filter (\<lambda>t. status t = st) (map snd (map (\<lambda>(j, u). (j, g u)) m))
           = map g (filter (\<lambda>t. status t = st) (map snd m))"
  using assms by (induction m) auto

lemma sort_key_unique:
  assumes "mset zs = mset ys" and "sorted (map f ys)" and "distinct (map f ys)"
  shows "sort_key f zs = ys"
proof (rule map_sorted_distinct_set_unique [where f = f])
  from assms(1) have s: "set zs = set ys" by (rule mset_eq_setD)
  from assms(1) have "mset (map f zs) = mset (map f ys)" by simp
  with assms(3) have dz: "distinct (map f zs)" by (metis mset_eq_imp_distinct_iff)
  show "inj_on f (set (sort_key f zs) \<union> set ys)"
    using assms(3) s by (simp add: distinct_map)
  show "sorted (map f (sort_key f zs))" by simp
  show "distinct (map f (sort_key f zs))" using dz by (simp add: distinct_map)
  show "sorted (map f ys)" by fact
  show "distinct (map f ys)" by fact
  show "set (sort_key f zs) = set ys" using s by simp
qed

lemma length_withIndex [simp]: "length (withIndex ts i) = length ts"
  by (induction ts arbitrary: i) auto

lemma map_task_id_withIndex [simp]: "map task_id (withIndex ts i) = map task_id ts"
  by (induction ts arbitrary: i) auto

lemma map_status_withIndex [simp]: "map status (withIndex ts i) = map status ts"
  by (induction ts arbitrary: i) auto

lemma map_position_withIndex:
  "map position (withIndex ts i) = map (\<lambda>n. Some (i + int n)) [0..<length ts]"
proof (induction ts arbitrary: i)
  case Nil
  show ?case by simp
next
  case (Cons t ts)
  have "map (\<lambda>n. Some (i + int n)) [0..<length (t # ts)]
          = Some i # map (\<lambda>n. Some (i + 1 + int n)) [0..<length ts]"
    by (simp add: upt_conv_Cons map_Suc_upt [symmetric] del: upt_Suc)
  with Cons.IH [of "i + 1"] show ?case by simp
qed

lemma map_pos0_withIndex:
  "map pos0 (withIndex ts i) = map (\<lambda>n. i + int n) [0..<length ts]"
proof -
  have "map pos0 (withIndex ts i) = map (\<lambda>p. case p of None \<Rightarrow> 0 | Some q \<Rightarrow> q) (map position (withIndex ts i))"
    by (simp add: pos0_def o_def)
  then show ?thesis by (simp add: map_position_withIndex o_def)
qed

lemma sorted_pos0_withIndex: "sorted (map pos0 (withIndex ts i))"
  unfolding map_pos0_withIndex by (simp add: sorted_map sorted_wrt_iff_nth_less strict_sorted_iff)

lemma distinct_pos0_withIndex: "distinct (map pos0 (withIndex ts i))"
  unfolding map_pos0_withIndex by (simp add: distinct_map inj_on_def)

lemma rank_append:
  "task_id t \<notin> task_id ` set pre \<Longrightarrow> rank (task_id t) (pre @ t # ts) = Some (length pre)"
  by (induction pre) auto

lemma map_reposition_suffix:
  "distinct (map task_id (pre @ ts)) \<Longrightarrow>
     map (reposition (pre @ ts) i) ts = withIndex ts (i + int (length pre))"
proof (induction ts arbitrary: pre)
  case Nil
  show ?case by simp
next
  case (Cons t ts)
  from Cons.prems have "task_id t \<notin> task_id ` set pre" by auto
  then have r: "reposition (pre @ t # ts) i t = t\<lparr>position := Some (i + int (length pre))\<rparr>"
    by (simp add: reposition_def rank_append)
  from Cons.prems have "distinct (map task_id ((pre @ [t]) @ ts))" by simp
  from Cons.IH [OF this] have "map (reposition (pre @ t # ts) i) ts
      = withIndex ts (i + int (length pre) + 1)" by (simp add: algebra_simps)
  with r show ?case by simp
qed

lemma map_reposition_self:
  "distinct (map task_id ts) \<Longrightarrow> map (reposition ts i) ts = withIndex ts i"
  using map_reposition_suffix [of "[]" ts i] by simp

lemma wellFormed_ids: "wellFormed m \<Longrightarrow> map (task_id \<circ> snd) m = map fst m"
  by (induction m) (auto simp: wellFormed_def)

lemma column_perm_facts:
  assumes wf: "wellFormed m"
    and perm: "mset ts = mset (filter (\<lambda>t. status t = st) (map snd m))"
  shows "distinct (map task_id ts)"
    and "\<forall>t\<in>set ts. (task_id t, t) \<in> set m"
    and "\<forall>t\<in>set ts. status t = st"
proof -
  let ?X = "filter (\<lambda>t. status t = st) (map snd m)"
  from wf have "distinct (map fst m)" by (simp add: wellFormed_def)
  with wf have "distinct (map task_id (map snd m))" by (simp add: wellFormed_ids)
  then have "distinct (map task_id ?X)" by (rule distinct_map_filter)
  moreover from perm have "mset (map task_id ts) = mset (map task_id ?X)" by simp
  ultimately show "distinct (map task_id ts)" by (metis mset_eq_imp_distinct_iff)
  from perm have s: "set ts = set ?X" by (rule mset_eq_setD)
  show "\<forall>t\<in>set ts. (task_id t, t) \<in> set m"
  proof
    fix t assume "t \<in> set ts"
    with s obtain j where "(j, t) \<in> set m" by auto
    with wf show "(task_id t, t) \<in> set m" by (auto simp: wellFormed_def)
  qed
  from s show "\<forall>t\<in>set ts. status t = st" by auto
qed

lemma column_after_reposition:
  assumes wf: "wellFormed m"
    and perm: "mset ts = mset (filter (\<lambda>t. status t = st) (map snd m))"
  shows "columnOf (map (\<lambda>(j, u). (j, reposition ts i u)) m) st = withIndex ts i"
proof -
  let ?X = "filter (\<lambda>t. status t = st) (map snd m)"
  note f = column_perm_facts [OF wf perm]
  have "columnOf (map (\<lambda>(j, u). (j, reposition ts i u)) m) st
          = sort_key pos0 (map (reposition ts i) ?X)"
    by (simp only: columnOf_def jsSort_byPosition
        column_of_map [of "reposition ts i", OF status_reposition])
  also have "\<dots> = withIndex ts i"
  proof (rule sort_key_unique)
    from perm have "mset (map (reposition ts i) ?X) = mset (map (reposition ts i) ts)" by simp
    then show "mset (map (reposition ts i) ?X) = mset (withIndex ts i)"
      by (simp add: map_reposition_self [OF f(1)])
    show "sorted (map pos0 (withIndex ts i))" by (rule sorted_pos0_withIndex)
    show "distinct (map pos0 (withIndex ts i))" by (rule distinct_pos0_withIndex)
  qed
  finally show ?thesis .
qed

lemma dense_withIndex:
  "columnOf m st = withIndex ts 0 \<Longrightarrow> dense m st"
  by (simp add: dense_def map_position_withIndex)

lemma updateTaskStatus_store:
  assumes "map_of (tasks s) k = Some task"
  shows "updateTaskStatus k st tp tt pb s =
    (let u = task\<lparr>status := st, position := Some (insertPositionOf tp tt (tasks s))\<rparr>;
         m1 = AList.update k u (tasks s)
     in (Some u,
         s\<lparr>tasks := (if tp = None \<and> tt = None then shiftDown k (columnOf m1 st) m1
                      else renumber (jsSort (finalCmp k) (columnOf m1 st)) 0 m1)\<rparr>))"
  using assms
  by (auto simp: updateTaskStatus_def insertPositionOf_def Let_def truthy_def
      split: option.splits)

lemma set_update_subset:
  "(j, u) \<in> set (AList.update k v m) \<Longrightarrow> (j, u) = (k, v) \<or> (j, u) \<in> set m"
  by (induction m) (auto split: if_splits)

lemma wellFormed_update:
  assumes "wellFormed m" and "task_id v = k"
  shows "wellFormed (AList.update k v m)"
  using assms by (auto simp: wellFormed_def distinct_update dest!: set_update_subset)

lemma wellFormed_task_id:
  "wellFormed m \<Longrightarrow> map_of m k = Some t \<Longrightarrow> task_id t = k"
  by (auto simp: wellFormed_def dest: map_of_SomeD)

lemma set_columnOf: "set (columnOf m st) = {t \<in> snd ` set m. status t = st}"
proof -
  have "set (columnOf m st) = set_mset (mset (columnOf m st))" by simp
  also have "\<dots> = set (filter (\<lambda>t. status t = st) (map snd m))"
    unfolding columnOf_def mset_jsSort by simp
  finally show ?thesis by auto
qed

lemma mset_columnOf: "mset (columnOf m st) = mset (filter (\<lambda>t. status t = st) (map snd m))"
  by (simp add: columnOf_def mset_jsSort)

lemma not_in_column:
  assumes wf: "wellFormed m" and j: "map_of m j = Some u" and st: "status u \<noteq> st"
  shows "j \<notin> task_id ` set (columnOf m st)"
proof
  assume "j \<in> task_id ` set (columnOf m st)"
  then obtain t j' where t: "(j', t) \<in> set m" "status t = st" "task_id t = j"
    by (auto simp: set_columnOf)
  with wf have "j' = j" by (auto simp: wellFormed_def)
  with t wf have "map_of m j = Some t" by (auto simp: wellFormed_def)
  with j st t show False by simp
qed

lemma in_column:
  assumes wf: "wellFormed m" and j: "map_of m j = Some u" and st: "status u = st"
  shows "j \<in> task_id ` set (columnOf m st)"
proof -
  from j have "(j, u) \<in> set m" by (rule map_of_SomeD)
  with st have "u \<in> set (columnOf m st)" by (force simp: set_columnOf)
  moreover from wf j have "task_id u = j" by (rule wellFormed_task_id)
  ultimately show ?thesis by force
qed

lemma map_of_map_values:
  "map_of (map (\<lambda>(j, u). (j, g u)) m) j = map_option g (map_of m j)"
  by (induction m) auto

text \<open>The store after \<^verbatim>\<open>updateTaskStatus\<close>, as one pass over the store.\<close>

lemma updateTaskStatus_as_map:
  assumes wf: "wellFormed (tasks s)" and k: "map_of (tasks s) k = Some task"
  shows "tasks (snd (updateTaskStatus k st tp tt pb s)) =
    (let u = task\<lparr>status := st, position := Some (insertPositionOf tp tt (tasks s))\<rparr>;
         m1 = AList.update k u (tasks s)
     in map (\<lambda>(j, v). (j, if tp = None \<and> tt = None
                          then shifted k (task_id ` set (columnOf m1 st)) v
                          else reposition (jsSort (finalCmp k) (columnOf m1 st)) 0 v)) m1)"
proof -
  let ?u = "task\<lparr>status := st, position := Some (insertPositionOf tp tt (tasks s))\<rparr>"
  let ?m1 = "AList.update k ?u (tasks s)"
  from wellFormed_task_id [OF wf k] have "task_id ?u = k" by simp
  with wf have wf1: "wellFormed ?m1" by (rule wellFormed_update)
  note c = column_perm_facts [OF wf1 mset_columnOf [of ?m1 st]]
  have p: "mset (jsSort (finalCmp k) (columnOf ?m1 st))
            = mset (filter (\<lambda>t. status t = st) (map snd ?m1))"
    by (simp add: mset_jsSort mset_columnOf)
  note f = column_perm_facts [OF wf1 p]
  show ?thesis
  proof (cases "tp = None \<and> tt = None")
    case True
    then show ?thesis
      using shiftDown_as_map [OF wf1 c(1) c(2), of k]
      by (simp add: updateTaskStatus_store [OF k] Let_def)
  next
    case False
    then show ?thesis
      using renumber_as_map [OF wf1 f(1) f(2), of 0]
      by (auto simp add: updateTaskStatus_store [OF k] Let_def)
  qed
qed

lemma updateTaskStatus_keys:
  assumes wf: "wellFormed (tasks s)" and k: "map_of (tasks s) k = Some task"
  shows "map fst (tasks (snd (updateTaskStatus k st tp tt pb s))) = map fst (tasks s)"
proof -
  from k have "k \<in> set (map fst (tasks s))"
    by (metis domI dom_map_of_conv_image_fst set_map)
  then show ?thesis
    unfolding updateTaskStatus_as_map [OF wf k] Let_def keys_map
    by (simp add: update_keys)
qed

lemma updateTaskStatus_frame:
  assumes wf: "wellFormed (tasks s)" and k: "map_of (tasks s) k = Some task"
    and j: "j \<noteq> k" "map_of (tasks s) j = Some v" "status v \<noteq> st"
  shows "map_of (tasks (snd (updateTaskStatus k st tp tt pb s))) j = Some v"
proof -
  let ?u = "task\<lparr>status := st, position := Some (insertPositionOf tp tt (tasks s))\<rparr>"
  let ?m1 = "AList.update k ?u (tasks s)"
  from wellFormed_task_id [OF wf k] have "task_id ?u = k" by simp
  with wf have wf1: "wellFormed ?m1" by (rule wellFormed_update)
  from j have j1: "map_of ?m1 j = Some v" by (simp add: update_conv')
  from not_in_column [OF wf1 j1 j(3)] have n: "j \<notin> task_id ` set (columnOf ?m1 st)" .
  from wellFormed_task_id [OF wf1 j1] have id: "task_id v = j" .
  have "set (jsSort (finalCmp k) (columnOf ?m1 st)) = set (columnOf ?m1 st)"
    using mset_jsSort [of "finalCmp k" "columnOf ?m1 st"] by (rule mset_eq_setD)
  with n have "rank j (jsSort (finalCmp k) (columnOf ?m1 st)) = None"
    by (simp add: rank_None_iff)
  with n id j1 show ?thesis
    unfolding updateTaskStatus_as_map [OF wf k] Let_def map_of_map_values
    by (cases "tp = None \<and> tt = None") (auto simp: shifted_def reposition_def)
qed

lemma updateTaskStatus_top:
  assumes wf: "wellFormed (tasks s)" and k: "map_of (tasks s) k = Some task"
  shows "map_of (tasks (snd (updateTaskStatus k st None None pb s))) j =
     (if j = k then Some (task\<lparr>status := st, position := Some 0\<rparr>)
      else map_option (\<lambda>v. if status v = st then v\<lparr>position := Some (pos0 v + 1)\<rparr> else v)
             (map_of (tasks s) j))"
proof -
  let ?u = "task\<lparr>status := st, position := Some 0\<rparr>"
  let ?m1 = "AList.update k ?u (tasks s)"
  have ip: "insertPositionOf None None (tasks s) = 0"
    by (simp add: insertPositionOf_def truthy_def)
  from wellFormed_task_id [OF wf k] have idu: "task_id ?u = k" by simp
  with wf have wf1: "wellFormed ?m1" by (rule wellFormed_update)
  have m: "map_of (tasks (snd (updateTaskStatus k st None None pb s))) j
        = map_option (shifted k (task_id ` set (columnOf ?m1 st))) (map_of ?m1 j)"
    unfolding updateTaskStatus_as_map [OF wf k] Let_def map_of_map_values ip by simp
  show ?thesis
  proof (cases "j = k")
    case True
    then show ?thesis using m idu by (simp add: update_conv' shifted_def)
  next
    case False
    then have e: "map_of ?m1 j = map_of (tasks s) j" by (simp add: update_conv')
    show ?thesis
    proof (cases "map_of (tasks s) j")
      case None
      with m e False show ?thesis by simp
    next
      case (Some v)
      with e have j1: "map_of ?m1 j = Some v" by simp
      from wellFormed_task_id [OF wf1 j1] have id: "task_id v = j" .
      have "j \<in> task_id ` set (columnOf ?m1 st) \<longleftrightarrow> status v = st"
        using in_column [OF wf1 j1] not_in_column [OF wf1 j1] by blast
      with m j1 Some False id show ?thesis by (simp add: shifted_def)
    qed
  qed
qed

lemma updateTaskStatus_dense:
  assumes wf: "wellFormed (tasks s)" and k: "map_of (tasks s) k = Some task"
    and nt: "tp \<noteq> None \<or> tt \<noteq> None"
  shows "dense (tasks (snd (updateTaskStatus k st tp tt pb s))) st"
proof -
  let ?u = "task\<lparr>status := st, position := Some (insertPositionOf tp tt (tasks s))\<rparr>"
  let ?m1 = "AList.update k ?u (tasks s)"
  let ?ts = "jsSort (finalCmp k) (columnOf ?m1 st)"
  from wellFormed_task_id [OF wf k] have "task_id ?u = k" by simp
  with wf have wf1: "wellFormed ?m1" by (rule wellFormed_update)
  have p: "mset ?ts = mset (filter (\<lambda>t. status t = st) (map snd ?m1))"
    by (simp add: mset_jsSort mset_columnOf)
  from nt have "tasks (snd (updateTaskStatus k st tp tt pb s))
       = map (\<lambda>(j, v). (j, reposition ?ts 0 v)) ?m1"
    unfolding updateTaskStatus_as_map [OF wf k] Let_def by auto
  with column_after_reposition [OF wf1 p, of 0] show ?thesis
    by (simp add: dense_withIndex)
qed

lemma column_after_insert:
  assumes "wellFormed m" and "map_of m k = Some moved" and "status moved \<noteq> st" and "status u = st"
  shows "mset (filter (\<lambda>t. status t = st) (map snd (AList.update k u m)))
           = add_mset u (mset (filter (\<lambda>t. status t = st) (map snd m)))"
  using assms
proof (induction m)
  case Nil
  then show ?case by simp
next
  case (Cons a m)
  obtain j v where a: "a = (j, v)" by (cases a)
  show ?case
  proof (cases "j = k")
    case True
    with Cons.prems a show ?thesis by simp
  next
    case False
    with Cons.prems a have "wellFormed m" "map_of m k = Some moved"
      by (auto simp: wellFormed_def)
    from Cons.IH [OF this Cons.prems(3) Cons.prems(4)] a False show ?thesis by simp
  qed
qed

lemma dense_positions:
  "dense m st \<Longrightarrow> map pos0 (columnOf m st) = map int [0..<length (columnOf m st)]"
proof -
  assume "dense m st"
  then have "map (\<lambda>p. case p of None \<Rightarrow> 0 | Some q \<Rightarrow> q) (map position (columnOf m st))
      = map (\<lambda>p. case p of None \<Rightarrow> 0 | Some q \<Rightarrow> q) (map (\<lambda>n. Some (int n)) [0..<length (columnOf m st)])"
    by (simp only: dense_def)
  moreover have "pos0 = (\<lambda>x. case position x of None \<Rightarrow> 0 | Some q \<Rightarrow> q)"
    by (rule ext) (simp add: pos0_def)
  ultimately show ?thesis by (simp add: o_def)
qed

lemma status_shifted [simp]: "status (shifted k ids u) = status u"
  by (simp add: shifted_def)

text \<open>A task placed at the top of a column it was not in, whose positions were
  0, ..., N - 1: the column is the task followed by the old column shifted by one.\<close>

lemma top_placement_keeps_dense:
  assumes wf: "wellFormed (tasks s)" and k: "map_of (tasks s) k = Some moved"
    and cross: "status moved \<noteq> st" and d: "dense (tasks s) st"
  shows "columnOf (tasks (snd (updateTaskStatus k st None None pb s))) st
           = moved\<lparr>status := st, position := Some 0\<rparr>
             # map (\<lambda>v. v\<lparr>position := Some (pos0 v + 1)\<rparr>) (columnOf (tasks s) st)"
    and "dense (tasks (snd (updateTaskStatus k st None None pb s))) st"
proof -
  let ?u = "moved\<lparr>status := st, position := Some 0\<rparr>"
  let ?m1 = "AList.update k ?u (tasks s)"
  let ?ids = "task_id ` set (columnOf ?m1 st)"
  let ?X0 = "filter (\<lambda>t. status t = st) (map snd (tasks s))"
  let ?X1 = "filter (\<lambda>t. status t = st) (map snd ?m1)"
  let ?col0 = "columnOf (tasks s) st"
  let ?bump = "\<lambda>v. v\<lparr>position := Some (pos0 v + 1)\<rparr>"
  have ip: "insertPositionOf None None (tasks s) = 0"
    by (simp add: insertPositionOf_def truthy_def)
  from wellFormed_task_id [OF wf k] have idu: "task_id ?u = k" by simp
  with wf have wf1: "wellFormed ?m1" by (rule wellFormed_update)
  have m2: "tasks (snd (updateTaskStatus k st None None pb s))
              = map (\<lambda>(j, v). (j, shifted k ?ids v)) ?m1"
    unfolding updateTaskStatus_as_map [OF wf k] Let_def ip by simp
  have x1: "mset ?X1 = add_mset ?u (mset ?X0)"
    by (rule column_after_insert [OF wf k cross]) simp
  have sh: "\<forall>v\<in>set ?X0. shifted k ?ids v = ?bump v"
  proof
    fix v assume v: "v \<in> set ?X0"
    then obtain j where jv: "(j, v) \<in> set (tasks s)" and sv: "status v = st" by auto
    from wellFormed_lookup [OF wf jv] have mj: "map_of (tasks s) j = Some v" and idv: "task_id v = j"
      by auto
    from mj k cross sv have jk: "j \<noteq> k" by auto
    with mj have "map_of ?m1 j = Some v" by (simp add: update_conv')
    from in_column [OF wf1 this sv] idv jk show "shifted k ?ids v = ?bump v"
      by (simp add: shifted_def)
  qed
  have col: "columnOf (tasks (snd (updateTaskStatus k st None None pb s))) st
          = sort_key pos0 (map (shifted k ?ids) ?X1)"
  proof -
    have "columnOf (map (\<lambda>(j, v). (j, shifted k ids v)) ?m1) st
            = sort_key pos0 (map (shifted k ids) ?X1)" for ids
      by (simp only: columnOf_def jsSort_byPosition
          column_of_map [of "shifted k ids", OF status_shifted])
    then show ?thesis unfolding m2 .
  qed
  let ?Y = "?u # map ?bump ?col0"
  have "mset (map (shifted k ?ids) ?X1) = image_mset (shifted k ?ids) (mset ?X1)"
    by (simp only: mset_map)
  also have "\<dots> = image_mset (shifted k ?ids) (add_mset ?u (mset ?X0))"
    by (simp only: x1)
  also have "\<dots> = add_mset (shifted k ?ids ?u) (image_mset (shifted k ?ids) (mset ?X0))"
    by (simp only: image_mset_add_mset)
  also have "shifted k ?ids ?u = ?u" using idu by (simp add: shifted_def)
  also have "image_mset (shifted k ?ids) (mset ?X0) = image_mset ?bump (mset ?X0)"
    using sh by (intro image_mset_cong) simp
  also have "mset ?X0 = mset ?col0" by (simp add: mset_columnOf)
  finally have ms: "mset (map (shifted k ?ids) ?X1) = mset ?Y" by simp
  have py: "map pos0 ?Y = map int [0..<Suc (length ?col0)]"
  proof -
    have "map pos0 (map ?bump ?col0) = map (\<lambda>n. n + 1) (map pos0 ?col0)"
      by (simp add: pos0_def o_def)
    also have "\<dots> = map (\<lambda>n. int n + 1) [0..<length ?col0]"
      by (simp add: dense_positions [OF d] o_def)
    also have "\<dots> = map int (map Suc [0..<length ?col0])" by (simp add: o_def)
    finally have "map pos0 (map ?bump ?col0) = map int [Suc 0..<Suc (length ?col0)]"
      by (simp only: map_Suc_upt)
    then show ?thesis by (simp add: pos0_def upt_conv_Cons del: upt_Suc)
  qed
  have "sort_key pos0 (map (shifted k ?ids) ?X1) = ?Y"
  proof (rule sort_key_unique [OF ms])
    show "sorted (map pos0 ?Y)" unfolding py by (simp add: sorted_map sorted_wrt_iff_nth_less strict_sorted_iff del: upt_Suc)
    show "distinct (map pos0 ?Y)" unfolding py by (simp add: distinct_map inj_on_def del: upt_Suc)
  qed
  with col have c: "columnOf (tasks (snd (updateTaskStatus k st None None pb s))) st = ?Y" by simp
  from c show "columnOf (tasks (snd (updateTaskStatus k st None None pb s))) st
           = moved\<lparr>status := st, position := Some 0\<rparr>
             # map (\<lambda>v. v\<lparr>position := Some (pos0 v + 1)\<rparr>) (columnOf (tasks s) st)" .
  have "map position ?Y = map Some (map pos0 ?Y)" by (simp add: pos0_def)
  also have "\<dots> = map (\<lambda>n. Some (int n)) [0..<length ?Y]"
    unfolding py by (simp add: o_def del: upt_Suc)
  finally show "dense (tasks (snd (updateTaskStatus k st None None pb s))) st"
    unfolding dense_def c .
qed

lemma findIndex_ge: "findIndex P xs \<ge> - 1"
  by (induction xs) (auto simp: Let_def)

lemma findIndex_missing: "findIndex P xs = - 1 \<longleftrightarrow> (\<forall>x\<in>set xs. \<not> P x)"
proof (induction xs)
  case Nil
  show ?case by simp
next
  case (Cons x xs)
  from findIndex_ge [of P xs] have "findIndex P xs + 1 \<noteq> - 1" by linarith
  with Cons show ?case by (auto simp: Let_def)
qed

lemma findIndex_found:
  assumes "\<exists>x\<in>set xs. P x"
  shows "0 \<le> findIndex P xs \<and> nat (findIndex P xs) < length xs
       \<and> P (xs ! nat (findIndex P xs))
       \<and> (\<forall>i < nat (findIndex P xs). \<not> P (xs ! i))"
  using assms
proof (induction xs)
  case Nil
  then show ?case by simp
next
  case (Cons x xs)
  show ?case
  proof (cases "P x")
    case True
    then show ?thesis by simp
  next
    case False
    with Cons.prems have ex: "\<exists>x\<in>set xs. P x" by simp
    from Cons.IH [OF ex] have ih: "0 \<le> findIndex P xs" "nat (findIndex P xs) < length xs"
      "P (xs ! nat (findIndex P xs))" "\<forall>i < nat (findIndex P xs). \<not> P (xs ! i)" by auto
    from ih(1) have ne: "findIndex P xs \<noteq> - 1" by simp
    have n: "nat (findIndex P xs + 1) = Suc (nat (findIndex P xs))" using ih(1) by simp
    show ?thesis
      using False ne ih unfolding findIndex.simps Let_def
      by (auto simp: n nth_Cons split: nat.splits)
  qed
qed

lemma mset_remove_by_key:
  "distinct (map f xs) \<Longrightarrow> x \<in> set xs \<Longrightarrow>
     add_mset x (mset (filter (\<lambda>t. f t \<noteq> f x) xs)) = mset xs"
proof (induction xs)
  case Nil
  then show ?case by simp
next
  case (Cons a xs)
  show ?case
  proof (cases "a = x")
    case True
    with Cons.prems have "\<forall>t\<in>set xs. f t \<noteq> f x" by (auto simp: image_iff)
    then have "filter (\<lambda>t. f t \<noteq> f x) xs = xs" by (simp add: filter_id_conv)
    with True show ?thesis by simp
  next
    case False
    with Cons.prems have "x \<in> set xs" "distinct (map f xs)" "f a \<noteq> f x" by (auto simp: image_iff)
    with Cons.IH show ?thesis by simp
  qed
qed

text \<open>The path of \<^verbatim>\<open>reorderTaskInColumn\<close> that writes: both tasks exist, in the same column, and are
  not the same task.\<close>

lemma reorder_success:
  fixes placeAfter :: bool
  assumes wf: "wellFormed (tasks s)"
    and t: "map_of (tasks s) taskId = Some task"
    and g: "map_of (tasks s) targetTaskId = Some targetTask"
    and same: "status task = status targetTask"
    and ne: "taskId \<noteq> targetTaskId"
  defines "rest \<equiv> filter (\<lambda>t. task_id t \<noteq> taskId) (columnOf (tasks s) (status task))"
  defines "n \<equiv> nat (findIndex (\<lambda>t. task_id t = targetTaskId) rest)"
  defines "us \<equiv> take (if placeAfter then n + 1 else n) rest @ [task]
                 @ drop (if placeAfter then n + 1 else n) rest"
  shows "n < length rest" and "task_id (rest ! n) = targetTaskId"
    and "\<forall>i<n. task_id (rest ! i) \<noteq> targetTaskId"
    and "reorderTaskInColumn taskId targetTaskId placeAfter s
           = (withIndex us 0, s\<lparr>tasks := setAll (withIndex us 0) (tasks s)\<rparr>)"
    and "columnOf (setAll (withIndex us 0) (tasks s)) (status task) = withIndex us 0"
    and "mset us = mset (columnOf (tasks s) (status task))"
    and "wellFormed (setAll (withIndex us 0) (tasks s))"
    and "map fst (setAll (withIndex us 0) (tasks s)) = map fst (tasks s)"
proof -
  let ?col = "columnOf (tasks s) (status task)"
  from wellFormed_task_id [OF wf t] have idt: "task_id task = taskId" .
  from wellFormed_task_id [OF wf g] have idg: "task_id targetTask = targetTaskId" .
  note cf = column_perm_facts [OF wf mset_columnOf [of "tasks s" "status task"]]
  from t have "(taskId, task) \<in> set (tasks s)" by (rule map_of_SomeD)
  then have tin: "task \<in> set ?col" by (force simp: set_columnOf)
  from g have "(targetTaskId, targetTask) \<in> set (tasks s)" by (rule map_of_SomeD)
  with same have "targetTask \<in> set ?col" by (force simp: set_columnOf)
  with idg ne have "targetTask \<in> set rest" by (simp add: rest_def)
  with idg have ex: "\<exists>x\<in>set rest. task_id x = targetTaskId" by blast
  note fi = findIndex_found [OF ex]
  from fi show "n < length rest" by (simp add: n_def)
  from fi show "task_id (rest ! n) = targetTaskId" by (simp add: n_def)
  from fi show "\<forall>i<n. task_id (rest ! i) \<noteq> targetTaskId" by (simp add: n_def)
  from fi have nm: "findIndex (\<lambda>t. task_id t = targetTaskId) rest \<noteq> - 1" by simp
  have ins: "nat (findIndex (\<lambda>t. task_id t = targetTaskId) rest + 1) = Suc n"
    "nat (findIndex (\<lambda>t. task_id t = targetTaskId) rest) = n"
    using fi by (simp_all add: n_def nat_add_distrib)
  show "reorderTaskInColumn taskId targetTaskId placeAfter s
           = (withIndex us 0, s\<lparr>tasks := setAll (withIndex us 0) (tasks s)\<rparr>)"
    using t g same [symmetric] nm ins idt idg
    by (simp add: reorderTaskInColumn_def Let_def rest_def [symmetric] us_def del: findIndex.simps)
  have "mset us = add_mset task (mset rest)" by (simp add: us_def flip: mset_append [of "take _ rest" "drop _ rest"])
  also have "\<dots> = mset ?col"
    using mset_remove_by_key [OF cf(1) tin] idt by (simp add: rest_def)
  finally show p: "mset us = mset ?col" .
  then have p': "mset us = mset (filter (\<lambda>t. status t = status task) (map snd (tasks s)))"
    by (simp add: mset_columnOf)
  note uf = column_perm_facts [OF wf p']
  have sm: "setAll (withIndex us 0) (tasks s) = map (\<lambda>(j, u). (j, reposition us 0 u)) (tasks s)"
    by (rule setAll_as_map [OF wf uf(1) uf(2)])
  show "columnOf (setAll (withIndex us 0) (tasks s)) (status task) = withIndex us 0"
    unfolding sm by (rule column_after_reposition [OF wf p'])
  show "wellFormed (setAll (withIndex us 0) (tasks s))"
    unfolding sm by (rule wellFormed_map [OF wf]) simp
  show "map fst (setAll (withIndex us 0) (tasks s)) = map fst (tasks s)"
    unfolding sm by (rule keys_map)
qed

subsection \<open>The invariant is preserved\<close>

lemma task_id_shifted [simp]: "task_id (shifted k ids u) = task_id u"
  by (simp add: shifted_def)

lemma wellFormed_createTask:
  "wellFormed (tasks s) \<Longrightarrow> wellFormed (tasks (snd (createTask now ins s)))"
  by (simp add: createTask_def Let_def wellFormed_update)

lemma wellFormed_newMemStorage: "wellFormed (tasks (newMemStorage now))"
proof -
  have f: "wellFormed (tasks s) \<Longrightarrow>
      wellFormed (tasks (fold (\<lambda>task s. snd (createTask now task s)) xs s))" for xs s
    by (induction xs arbitrary: s) (simp_all add: wellFormed_createTask)
  have "wellFormed (tasks \<lparr>tasks = [], taskCurrentId = 1\<rparr>)"
    by (simp add: wellFormed_def)
  then show ?thesis unfolding newMemStorage_def by (rule f)
qed

lemma wellFormed_updateTaskStatus:
  assumes "wellFormed (tasks s)"
  shows "wellFormed (tasks (snd (updateTaskStatus k st tp tt pb s)))"
proof (cases "map_of (tasks s) k")
  case None
  with assms show ?thesis by (simp add: updateTaskStatus_def)
next
  case (Some task)
  let ?u = "task\<lparr>status := st, position := Some (insertPositionOf tp tt (tasks s))\<rparr>"
  from wellFormed_task_id [OF assms Some] have "task_id ?u = k" by simp
  with assms have "wellFormed (AList.update k ?u (tasks s))" by (rule wellFormed_update)
  then show ?thesis
    unfolding updateTaskStatus_as_map [OF assms Some] Let_def
    by (rule wellFormed_map) simp
qed

lemma wellFormed_updateTaskPosition:
  assumes "wellFormed (tasks s)"
  shows "wellFormed (tasks (snd (updateTaskPosition k p s)))"
proof (cases "map_of (tasks s) k")
  case None
  with assms show ?thesis by (simp add: updateTaskPosition_def)
next
  case (Some task)
  from wellFormed_task_id [OF assms Some] have "task_id (task\<lparr>position := Some p\<rparr>) = k" by simp
  with assms have "wellFormed (AList.update k (task\<lparr>position := Some p\<rparr>) (tasks s))"
    by (rule wellFormed_update)
  with Some show ?thesis by (simp add: updateTaskPosition_def Let_def)
qed

lemma reorder_same_task:
  "snd (reorderTaskInColumn k k placeAfter s) = s"
proof (cases "map_of (tasks s) k")
  case None
  then show ?thesis by (simp add: reorderTaskInColumn_def)
next
  case (Some task)
  have "findIndex (\<lambda>t. task_id t = task_id task)
          (filter (\<lambda>t. task_id t \<noteq> task_id task) (columnOf (tasks s) (status task))) = - 1"
    by (simp add: findIndex_missing)
  with Some show ?thesis by (simp add: reorderTaskInColumn_def Let_def del: findIndex.simps)
qed

lemma wellFormed_reorderTaskInColumn:
  assumes "wellFormed (tasks s)"
  shows "wellFormed (tasks (snd (reorderTaskInColumn taskId targetTaskId placeAfter s)))"
proof (cases "\<exists>task targetTask. map_of (tasks s) taskId = Some task
      \<and> map_of (tasks s) targetTaskId = Some targetTask \<and> status task = status targetTask
      \<and> taskId \<noteq> targetTaskId")
  case True
  then obtain task targetTask where t: "map_of (tasks s) taskId = Some task"
    and g: "map_of (tasks s) targetTaskId = Some targetTask"
    and same: "status task = status targetTask" and ne: "taskId \<noteq> targetTaskId" by blast
  note r = reorder_success [OF assms t g same ne]
  show ?thesis unfolding r(4) using r(7) by simp
next
  case False
  have "snd (reorderTaskInColumn taskId targetTaskId placeAfter s) = s"
  proof (cases "taskId = targetTaskId")
    case True
    then show ?thesis by (simp add: reorder_same_task)
  next
    case False
    with \<open>\<not> (\<exists>task targetTask. _)\<close> show ?thesis
      by (auto simp: reorderTaskInColumn_def Let_def split: option.splits)
  qed
  with assms show ?thesis by simp
qed

lemma wellFormed_deleteTask:
  assumes "wellFormed (tasks s)"
  shows "wellFormed (tasks (snd (deleteTask k s)))"
proof -
  have "set (AList.delete k m) \<subseteq> set m" for m :: task_map
    by (induction m) auto
  then have "set (AList.delete k (tasks s)) \<subseteq> set (tasks s)" .
  with assms show ?thesis
    by (auto simp: deleteTask_def wellFormed_def distinct_delete)
qed

section \<open>Moves and reorders\<close>

subsection \<open>Positions after a move or a reorder\<close>

text \<open>
  C1 as stated: after any successful move or same-column reorder, the positions of the
  affected column are 0, ..., N - 1. On the board A, B (both columns dense), task A is moved
  to the top of "done" and then back to the top of "todo". Both requests answer 200, and
  column "todo" ends with A at position 0 and B at position 2.
\<close>

theorem move_to_top_counterexample:
  "dense (tasks boardAB) ''todo'' \<and> dense (tasks boardAB) ''done''
   \<and> patchTaskStatus (Some 1) (toTopBody ''done'') boardAB
       = ((200, JsonTask (Some (mkTask 1 ''A'' ''done'' 0))),
          storeOf [mkTask 1 ''A'' ''done'' 0, mkTask 2 ''B'' ''todo'' 1])
   \<and> patchTaskStatus (Some 1) (toTopBody ''todo'')
         (storeOf [mkTask 1 ''A'' ''done'' 0, mkTask 2 ''B'' ''todo'' 1])
       = ((200, JsonTask (Some (mkTask 1 ''A'' ''todo'' 0))),
          storeOf [mkTask 1 ''A'' ''todo'' 0, mkTask 2 ''B'' ''todo'' 2])
   \<and> \<not> dense (tasks (storeOf [mkTask 1 ''A'' ''todo'' 0, mkTask 2 ''B'' ''todo'' 2])) ''todo''"
  by (simp add: eval_defs)

text \<open>
  C1, amended. In a store that satisfies its invariant: after a successful same-column
  reorder, and after a successful move that is given a target task or an explicit position,
  the positions of the affected column are 0, ..., N - 1 in ascending order, without
  duplicates; after a successful move that is given neither (placement at the top), the
  moved task has position 0 and every other task of the target column has its previous
  position plus one; so when the task comes from another column and the target column's
  positions were 0, ..., N - 2, they are 0, ..., N - 1 afterwards.
\<close>

theorem positions_after_move_or_reorder:
  assumes "wellFormed (tasks s)"
  shows "(map_of (tasks s) taskId = Some task \<and> map_of (tasks s) targetTaskId = Some targetTask
          \<and> status task = status targetTask \<and> taskId \<noteq> targetTaskId
          \<longrightarrow> dense (tasks (snd (reorderTaskInColumn taskId targetTaskId placeAfter s))) (status task))
      \<and> (map_of (tasks s) k = Some moved \<and> (tp \<noteq> None \<or> tt \<noteq> None)
          \<longrightarrow> dense (tasks (snd (updateTaskStatus k st tp tt pb s))) st)
      \<and> (map_of (tasks s) k = Some moved
          \<longrightarrow> (\<forall>j. map_of (tasks (snd (updateTaskStatus k st None None pb s))) j
                 = (if j = k then Some (moved\<lparr>status := st, position := Some 0\<rparr>)
                    else map_option
                           (\<lambda>v. if status v = st then v\<lparr>position := Some (pos0 v + 1)\<rparr> else v)
                           (map_of (tasks s) j))))
      \<and> (map_of (tasks s) k = Some moved \<and> status moved \<noteq> st \<and> dense (tasks s) st
          \<longrightarrow> dense (tasks (snd (updateTaskStatus k st None None pb s))) st)"
proof (intro conjI impI allI)
  assume a: "map_of (tasks s) taskId = Some task \<and> map_of (tasks s) targetTaskId = Some targetTask
          \<and> status task = status targetTask \<and> taskId \<noteq> targetTaskId"
  then have t: "map_of (tasks s) taskId = Some task"
    and g: "map_of (tasks s) targetTaskId = Some targetTask"
    and same: "status task = status targetTask" and ne: "taskId \<noteq> targetTaskId" by auto
  note r = reorder_success [OF assms t g same ne]
  show "dense (tasks (snd (reorderTaskInColumn taskId targetTaskId placeAfter s))) (status task)"
    using r(5) by (simp add: r(4) dense_withIndex)
next
  assume "map_of (tasks s) k = Some moved \<and> (tp \<noteq> None \<or> tt \<noteq> None)"
  then show "dense (tasks (snd (updateTaskStatus k st tp tt pb s))) st"
    using updateTaskStatus_dense [OF assms] by blast
next
  fix j assume "map_of (tasks s) k = Some moved"
  then show "map_of (tasks (snd (updateTaskStatus k st None None pb s))) j
                 = (if j = k then Some (moved\<lparr>status := st, position := Some 0\<rparr>)
                    else map_option
                           (\<lambda>v. if status v = st then v\<lparr>position := Some (pos0 v + 1)\<rparr> else v)
                           (map_of (tasks s) j))"
    by (rule updateTaskStatus_top [OF assms])
next
  assume "map_of (tasks s) k = Some moved \<and> status moved \<noteq> st \<and> dense (tasks s) st"
  then show "dense (tasks (snd (updateTaskStatus k st None None pb s))) st"
    using top_placement_keeps_dense(2) [OF assms] by blast
qed

theorem positions_after_move_or_reorder_witness:
  "wellFormed (tasks boardABC)
   \<and> dense (tasks (snd (reorderTaskInColumn 3 1 False boardABC))) ''todo''
   \<and> dense (tasks (snd (updateTaskStatus 2 ''todo'' (Some 0) None False boardABC))) ''todo''
   \<and> map_of (tasks (snd (updateTaskStatus 2 ''todo'' None None False boardABC))) 3
       = Some (mkTask 3 ''C'' ''todo'' 3)
   \<and> dense (tasks boardABC) ''done''
   \<and> dense (tasks (snd (updateTaskStatus 2 ''done'' None None False boardABC))) ''done''"
proof -
  have d: "dense (tasks boardABC) ''done''"
    by (simp add: eval_defs)
  from positions_after_move_or_reorder [OF wellFormed_boardABC,
      of 3 "mkTask 3 ''C'' ''todo'' 2" 1 "mkTask 1 ''A'' ''todo'' 0" False
         2 "mkTask 2 ''B'' ''todo'' 1" "Some 0" None "''todo''" False]
  have a: "dense (tasks (snd (reorderTaskInColumn 3 1 False boardABC))) ''todo''"
    and b: "dense (tasks (snd (updateTaskStatus 2 ''todo'' (Some 0) None False boardABC))) ''todo''"
    and c: "map_of (tasks (snd (updateTaskStatus 2 ''todo'' None None False boardABC))) 3
       = Some (mkTask 3 ''C'' ''todo'' 3)"
    by (simp_all add: boardABC_def storeOf_def mkTask_def pos0_def)
  from positions_after_move_or_reorder [OF wellFormed_boardABC,
      of 3 "mkTask 3 ''C'' ''todo'' 2" 1 "mkTask 1 ''A'' ''todo'' 0" False
         2 "mkTask 2 ''B'' ''todo'' 1" "Some 0" None "''done''" False] d
  have e: "dense (tasks (snd (updateTaskStatus 2 ''done'' None None False boardABC))) ''done''"
    by (simp add: boardABC_def storeOf_def mkTask_def)
  from wellFormed_boardABC a b c d e show ?thesis by simp
qed

subsection \<open>What a cross-column move leaves unchanged\<close>

text \<open>In the cross-column branch the route answers with what \<^verbatim>\<open>updateTaskStatus\<close> returns.\<close>

lemma patchTaskStatus_cross_column:
  assumes "getTask k s = Some task" and "status task \<noteq> b_status b"
  shows "patchTaskStatus (Some k) b s =
    (if truthy (b_targetTaskId b) then
       ((200, JsonTask (fst (updateTaskStatus k (b_status b) None (b_targetTaskId b)
                               (orFalse (b_placeBefore b)) s))),
        snd (updateTaskStatus k (b_status b) None (b_targetTaskId b) (orFalse (b_placeBefore b)) s))
     else if b_position b \<noteq> None then
       ((200, JsonTask (fst (updateTaskStatus k (b_status b) (b_position b) None False s))),
        snd (updateTaskStatus k (b_status b) (b_position b) None False s))
     else
       ((200, JsonTask (fst (updateTaskStatus k (b_status b) None None False s))),
        snd (updateTaskStatus k (b_status b) None None False s)))"
  using assms by (simp add: patchTaskStatus_def Let_def split: prod.splits)

text \<open>
  C6. A cross-column move renumbers the target column only: the store keeps its keys, and
  every task other than the moved one whose status is not the target status is stored
  unchanged, so the source column is not renumbered on move-out. With no target task and no
  position (as in a request with \<^verbatim>\<open>toTop: true\<close>) the moved task is stored in the target
  column at position 0. The witness is the scenario: A moved from "todo" (position 0, B at
  position 1) to the empty "done" with \<^verbatim>\<open>toTop: true\<close>.
\<close>

theorem cross_column_move_frame:
  assumes wf: "wellFormed (tasks s)" and k: "getTask k s = Some task"
    and cross: "status task \<noteq> b_status b"
  shows "map fst (tasks (snd (patchTaskStatus (Some k) b s))) = map fst (tasks s)
     \<and> (\<forall>j v. j \<noteq> k \<and> map_of (tasks s) j = Some v \<and> status v \<noteq> b_status b
            \<longrightarrow> map_of (tasks (snd (patchTaskStatus (Some k) b s))) j = Some v)
     \<and> (\<not> truthy (b_targetTaskId b) \<and> b_position b = None
            \<longrightarrow> patchTaskStatus (Some k) b s
                  = ((200, JsonTask (Some (task\<lparr>status := b_status b, position := Some 0\<rparr>))),
                     snd (updateTaskStatus k (b_status b) None None False s))
              \<and> map_of (tasks (snd (patchTaskStatus (Some k) b s))) k
                  = Some (task\<lparr>status := b_status b, position := Some 0\<rparr>))"
proof -
  from k have m: "map_of (tasks s) k = Some task" by (simp add: getTask_def)
  note p = patchTaskStatus_cross_column [OF k cross]
  have keys: "map fst (tasks (snd (patchTaskStatus (Some k) b s))) = map fst (tasks s)"
    unfolding p by (simp add: updateTaskStatus_keys [OF wf m])
  have frame: "\<forall>j v. j \<noteq> k \<and> map_of (tasks s) j = Some v \<and> status v \<noteq> b_status b
            \<longrightarrow> map_of (tasks (snd (patchTaskStatus (Some k) b s))) j = Some v"
    unfolding p by (auto simp: updateTaskStatus_frame [OF wf m])
  have top: "\<not> truthy (b_targetTaskId b) \<and> b_position b = None
            \<longrightarrow> patchTaskStatus (Some k) b s
                  = ((200, JsonTask (Some (task\<lparr>status := b_status b, position := Some 0\<rparr>))),
                     snd (updateTaskStatus k (b_status b) None None False s))
              \<and> map_of (tasks (snd (patchTaskStatus (Some k) b s))) k
                  = Some (task\<lparr>status := b_status b, position := Some 0\<rparr>)"
  proof (intro impI)
    assume a: "\<not> truthy (b_targetTaskId b) \<and> b_position b = None"
    have f: "fst (updateTaskStatus k (b_status b) None None False s)
               = Some (task\<lparr>status := b_status b, position := Some 0\<rparr>)"
      by (simp add: updateTaskStatus_store [OF m] Let_def insertPositionOf_def truthy_def)
    from a have q: "patchTaskStatus (Some k) b s
        = ((200, JsonTask (fst (updateTaskStatus k (b_status b) None None False s))),
           snd (updateTaskStatus k (b_status b) None None False s))"
      unfolding p by simp
    show "patchTaskStatus (Some k) b s
                  = ((200, JsonTask (Some (task\<lparr>status := b_status b, position := Some 0\<rparr>))),
                     snd (updateTaskStatus k (b_status b) None None False s))
              \<and> map_of (tasks (snd (patchTaskStatus (Some k) b s))) k
                  = Some (task\<lparr>status := b_status b, position := Some 0\<rparr>)"
      unfolding q f by (simp add: updateTaskStatus_top [OF wf m])
  qed
  from keys frame top show ?thesis by blast
qed

theorem cross_column_move_frame_witness:
  "wellFormed (tasks boardAB) \<and> getTask 1 boardAB = Some (mkTask 1 ''A'' ''todo'' 0)
   \<and> status (mkTask 1 ''A'' ''todo'' 0) \<noteq> b_status (toTopBody ''done'')
   \<and> map_of (tasks (snd (patchTaskStatus (Some 1) (toTopBody ''done'') boardAB))) 2
       = Some (mkTask 2 ''B'' ''todo'' 1)
   \<and> map_of (tasks (snd (patchTaskStatus (Some 1) (toTopBody ''done'') boardAB))) 1
       = Some (mkTask 1 ''A'' ''done'' 0)
   \<and> fst (patchTaskStatus (Some 1) (toTopBody ''done'') boardAB)
       = (200, JsonTask (Some (mkTask 1 ''A'' ''done'' 0)))"
proof -
  have g: "getTask 1 boardAB = Some (mkTask 1 ''A'' ''todo'' 0)"
    by (simp add: getTask_def boardAB_def storeOf_def mkTask_def)
  have c: "status (mkTask 1 ''A'' ''todo'' 0) \<noteq> b_status (toTopBody ''done'')"
    by (simp add: mkTask_def toTopBody_def)
  have b: "map_of (tasks boardAB) 2 = Some (mkTask 2 ''B'' ''todo'' 1)"
    by (simp add: boardAB_def storeOf_def mkTask_def)
  note th = cross_column_move_frame [OF wellFormed_boardAB g c]
  from th [THEN conjunct2, THEN conjunct1, rule_format, of 2 "mkTask 2 ''B'' ''todo'' 1"] b
  have o: "map_of (tasks (snd (patchTaskStatus (Some 1) (toTopBody ''done'') boardAB))) 2
       = Some (mkTask 2 ''B'' ''todo'' 1)"
    by (simp add: mkTask_def toTopBody_def)
  have n: "\<not> truthy (b_targetTaskId (toTopBody ''done'')) \<and> b_position (toTopBody ''done'') = None"
    by (simp add: toTopBody_def truthy_def)
  note top = th [THEN conjunct2, THEN conjunct2, rule_format, OF n]
  from top [THEN conjunct2]
  have a: "map_of (tasks (snd (patchTaskStatus (Some 1) (toTopBody ''done'') boardAB))) 1
       = Some (mkTask 1 ''A'' ''done'' 0)"
    by (simp add: mkTask_def toTopBody_def)
  from top [THEN conjunct1]
  have r: "fst (patchTaskStatus (Some 1) (toTopBody ''done'') boardAB)
       = (200, JsonTask (Some (mkTask 1 ''A'' ''done'' 0)))"
    by (simp add: mkTask_def toTopBody_def)
  from wellFormed_boardAB g c o a r show ?thesis by simp
qed

subsection \<open>Where a reorder inserts\<close>

lemma filter_insert_at:
  "filter (\<lambda>j. j \<noteq> a) (take i ys @ [a] @ drop i ys) = filter (\<lambda>j. j \<noteq> a) ys"
proof -
  have "filter (\<lambda>j. j \<noteq> a) (take i ys @ [a] @ drop i ys)
          = filter (\<lambda>j. j \<noteq> a) (take i ys) @ filter (\<lambda>j. j \<noteq> a) (drop i ys)"
    by simp
  also have "\<dots> = filter (\<lambda>j. j \<noteq> a) (take i ys @ drop i ys)"
    by (simp only: filter_append)
  finally show ?thesis by (simp only: append_take_drop_id)
qed

text \<open>
  C7. In a same-column reorder, \<open>placeBefore = true\<close> inserts the moved task at the ordinal
  index the target has among the other tasks of the column (the target shifts down by one)
  and \<open>placeBefore = false\<close> inserts it at that index plus one; the other tasks keep their
  relative order, and the positions are the indices. The witness is the scenario: column
  "todo" holding A, B, C and C placed before A gives C, A, B at positions 0, 1, 2.
\<close>

theorem reorder_inserts_at_target:
  assumes wf: "wellFormed (tasks s)"
    and t: "map_of (tasks s) taskId = Some task"
    and g: "map_of (tasks s) targetTaskId = Some targetTask"
    and same: "status task = status targetTask"
    and ne: "taskId \<noteq> targetTaskId"
  shows "let rest = filter (\<lambda>t. task_id t \<noteq> taskId) (columnOf (tasks s) (status task));
             n = nat (findIndex (\<lambda>t. task_id t = targetTaskId) rest);
             ins = (if placeBefore then n else n + 1);
             result = fst (reorderTaskInColumn taskId targetTaskId (\<not> placeBefore) s);
             s' = snd (reorderTaskInColumn taskId targetTaskId (\<not> placeBefore) s)
         in n < length rest \<and> task_id (rest ! n) = targetTaskId
          \<and> result = withIndex (take ins rest @ [task] @ drop ins rest) 0
          \<and> map task_id result = take ins (map task_id rest) @ [taskId] @ drop ins (map task_id rest)
          \<and> filter (\<lambda>j. j \<noteq> taskId) (map task_id result) = map task_id rest
          \<and> map position result = map (\<lambda>i. Some (int i)) [0..<length rest + 1]
          \<and> columnOf (tasks s') (status task) = result"
proof -
  let ?rest = "filter (\<lambda>t. task_id t \<noteq> taskId) (columnOf (tasks s) (status task))"
  let ?n = "nat (findIndex (\<lambda>t. task_id t = targetTaskId) ?rest)"
  let ?ins = "if placeBefore then ?n else ?n + 1"
  let ?us = "take ?ins ?rest @ [task] @ drop ?ins ?rest"
  note r0 = reorder_success [OF wf t g same ne]
  note r = r0(1) r0(2) r0(3) r0(4) [where placeAfter = "\<not> placeBefore"]
    r0(5) [where placeAfter = "\<not> placeBefore"]
  have ins: "(if \<not> placeBefore then ?n + 1 else ?n) = ?ins" by simp
  from wellFormed_task_id [OF wf t] have idt: "task_id task = taskId" .
  have res: "fst (reorderTaskInColumn taskId targetTaskId (\<not> placeBefore) s) = withIndex ?us 0"
    and st: "tasks (snd (reorderTaskInColumn taskId targetTaskId (\<not> placeBefore) s))
               = setAll (withIndex ?us 0) (tasks s)"
    unfolding r(4) ins by simp_all
  have ids: "map task_id (withIndex ?us 0)
               = take ?ins (map task_id ?rest) @ [taskId] @ drop ?ins (map task_id ?rest)"
    by (simp add: idt take_map drop_map)
  have others: "filter (\<lambda>j. j \<noteq> taskId) (map task_id (withIndex ?us 0)) = map task_id ?rest"
  proof -
    have "filter (\<lambda>j. j \<noteq> taskId) (map task_id ?rest) = map task_id ?rest"
      by (simp add: filter_id_conv)
    then show ?thesis unfolding ids filter_insert_at .
  qed
  have pos: "map position (withIndex ?us 0) = map (\<lambda>i. Some (int i)) [0..<length ?rest + 1]"
  proof -
    have "length ?us = length ?rest + 1" by simp
    then show ?thesis unfolding map_position_withIndex by simp
  qed
  have col: "columnOf (tasks (snd (reorderTaskInColumn taskId targetTaskId (\<not> placeBefore) s)))
               (status task) = withIndex ?us 0"
    unfolding st using r(5) unfolding ins .
  show ?thesis
    unfolding Let_def res using r(1) r(2) ids others pos col by simp
qed

lemma mkTask_position [simp]: "(mkTask k ttl st p)\<lparr>position := Some q\<rparr> = mkTask k ttl st q"
  by (simp add: mkTask_def)

theorem reorder_inserts_at_target_witness:
  "wellFormed (tasks boardABC)
   \<and> map_of (tasks boardABC) 3 = Some (mkTask 3 ''C'' ''todo'' 2)
   \<and> map_of (tasks boardABC) 1 = Some (mkTask 1 ''A'' ''todo'' 0)
   \<and> fst (reorderTaskInColumn 3 1 (\<not> True) boardABC)
       = [mkTask 3 ''C'' ''todo'' 0, mkTask 1 ''A'' ''todo'' 1, mkTask 2 ''B'' ''todo'' 2]
   \<and> columnOf (tasks (snd (reorderTaskInColumn 3 1 (\<not> True) boardABC))) ''todo''
       = [mkTask 3 ''C'' ''todo'' 0, mkTask 1 ''A'' ''todo'' 1, mkTask 2 ''B'' ''todo'' 2]
   \<and> fst (postTaskReorder (Some 3) \<lparr>r_targetTaskId = 1, r_position = Some ''before''\<rparr> boardABC)
       = (200, JsonTasks [mkTask 3 ''C'' ''todo'' 0, mkTask 1 ''A'' ''todo'' 1,
                          mkTask 2 ''B'' ''todo'' 2])
   \<and> fst (patchTaskStatus (Some 3) (targetBody ''todo'' 1 (Some True)) boardABC)
       = (200, JsonTask (Some (mkTask 3 ''C'' ''todo'' 0)))"
proof -
  have t: "map_of (tasks boardABC) 3 = Some (mkTask 3 ''C'' ''todo'' 2)"
    and g: "map_of (tasks boardABC) 1 = Some (mkTask 1 ''A'' ''todo'' 0)"
    by (simp_all add: boardABC_def storeOf_def mkTask_def)
  have same: "status (mkTask 3 ''C'' ''todo'' 2) = status (mkTask 1 ''A'' ''todo'' 0)"
    by (simp add: mkTask_def)
  have col: "columnOf (tasks boardABC) ''todo''
      = [mkTask 1 ''A'' ''todo'' 0, mkTask 2 ''B'' ''todo'' 1, mkTask 3 ''C'' ''todo'' 2]"
    by (simp add: eval_defs)
  have st: "status (mkTask 3 ''C'' ''todo'' 2) = ''todo''" by (simp add: mkTask_def)
  have ids: "task_id (mkTask 1 ''A'' ''todo'' 0) = 1" "task_id (mkTask 2 ''B'' ''todo'' 1) = 2"
    "task_id (mkTask 3 ''C'' ''todo'' 2) = 3" by (simp_all add: mkTask_def)
  have w: "withIndex [mkTask 3 ''C'' ''todo'' 2, mkTask 1 ''A'' ''todo'' 0, mkTask 2 ''B'' ''todo'' 1] 0
      = [mkTask 3 ''C'' ''todo'' 0, mkTask 1 ''A'' ''todo'' 1, mkTask 2 ''B'' ''todo'' 2]"
    by (simp add: mkTask_def)
  from reorder_inserts_at_target [OF wellFormed_boardABC t g same, of True]
  have r: "fst (reorderTaskInColumn 3 1 (\<not> True) boardABC)
       = [mkTask 3 ''C'' ''todo'' 0, mkTask 1 ''A'' ''todo'' 1, mkTask 2 ''B'' ''todo'' 2]"
    and c: "columnOf (tasks (snd (reorderTaskInColumn 3 1 (\<not> True) boardABC))) ''todo''
       = [mkTask 3 ''C'' ''todo'' 0, mkTask 1 ''A'' ''todo'' 1, mkTask 2 ''B'' ''todo'' 2]"
    unfolding Let_def st col by (simp_all add: ids w)
  have p: "fst (postTaskReorder (Some 3) \<lparr>r_targetTaskId = 1, r_position = Some ''before''\<rparr> boardABC)
       = (200, JsonTasks (fst (reorderTaskInColumn 3 1 (\<not> True) boardABC)))"
    by (simp add: postTaskReorder_def getTask_def t g Let_def split: prod.splits)
  have q: "fst (patchTaskStatus (Some 3) (targetBody ''todo'' 1 (Some True)) boardABC)
       = (200, JsonTask (Some (case find (\<lambda>t. task_id t = 3)
                                     (fst (reorderTaskInColumn 3 1 (\<not> True) boardABC)) of
                                Some u \<Rightarrow> u | None \<Rightarrow> mkTask 3 ''C'' ''todo'' 2)))"
    by (simp add: patchTaskStatus_def getTask_def t targetBody_def truthy_def st Let_def
        split: prod.splits)
  from wellFormed_boardABC t g r c p q show ?thesis
    by (simp add: mkTask_def)
qed

subsection \<open>A move relative to a missing task\<close>

text \<open>
  C8 as stated: a move whose placement names a target task that does not exist fails with
  NotFound and writes nothing. On the board A, B, moving A to "done" relative to task 99,
  which does not exist: the request answers 200 and A is stored in "done".
\<close>

theorem missing_target_counterexample:
  "getTask 99 boardAB = None
   \<and> patchTaskStatus (Some 1) (targetBody ''done'' 99 None) boardAB
       = ((200, JsonTask (Some (mkTask 1 ''A'' ''done'' 0))),
          storeOf [mkTask 1 ''A'' ''done'' 0, mkTask 2 ''B'' ''todo'' 1])"
  by (simp add: eval_defs)

lemma reorder_missing_target:
  "map_of (tasks s) targetTaskId = None \<Longrightarrow>
     snd (reorderTaskInColumn taskId targetTaskId placeAfter s) = s"
  by (simp add: reorderTaskInColumn_def Let_def split: option.splits)

text \<open>The case of a target id other than 0, which the route's test \<^verbatim>\<open>if (targetTaskId)\<close>
  reads as a target given.\<close>

lemma missing_nonzero_target:
  assumes wf: "wellFormed (tasks s)" and k: "getTask k s = Some task"
    and tr: "truthy (b_targetTaskId b)"
    and missing: "getTask (the (b_targetTaskId b)) s = None"
  shows "fst (fst (patchTaskStatus (Some k) b s)) = 200
     \<and> (status task = b_status b \<longrightarrow> snd (patchTaskStatus (Some k) b s) = s)
     \<and> (status task \<noteq> b_status b \<longrightarrow>
          fst (patchTaskStatus (Some k) b s)
            = (200, JsonTask (Some (task\<lparr>status := b_status b, position := Some 0\<rparr>)))
          \<and> (\<exists>p. map_of (tasks (snd (patchTaskStatus (Some k) b s))) k
                    = Some (task\<lparr>status := b_status b, position := p\<rparr>))
          \<and> dense (tasks (snd (patchTaskStatus (Some k) b s))) (b_status b))
     \<and> (k \<noteq> the (b_targetTaskId b) \<longrightarrow>
          postTaskReorder (Some k) \<lparr>r_targetTaskId = the (b_targetTaskId b), r_position = rp\<rparr> s
            = ((404, JsonMessage ''Source or target task not found''), s))"
proof -
  from k have m: "map_of (tasks s) k = Some task" by (simp add: getTask_def)
  from missing have mt: "map_of (tasks s) (the (b_targetTaskId b)) = None" by (simp add: getTask_def)
  from tr have ne: "b_targetTaskId b \<noteq> None" by (cases "b_targetTaskId b") (simp_all add: truthy_def)
  let ?st = "b_status b"
  let ?upd = "updateTaskStatus k ?st None (b_targetTaskId b) (orFalse (b_placeBefore b)) s"
  let ?u = "task\<lparr>status := ?st, position := Some 0\<rparr>"
  have same: "status task = ?st \<Longrightarrow> snd (patchTaskStatus (Some k) b s) = s"
    using k tr reorder_missing_target [OF mt]
    by (simp add: patchTaskStatus_def Let_def case_prod_beta)
  have code: "fst (fst (patchTaskStatus (Some k) b s)) = 200"
    using k by (simp add: patchTaskStatus_def Let_def case_prod_beta)
  have ip: "insertPositionOf None (b_targetTaskId b) (tasks s) = 0"
    using tr mt by (simp add: insertPositionOf_def)
  have cross: "status task \<noteq> ?st \<Longrightarrow> patchTaskStatus (Some k) b s = ((200, JsonTask (fst ?upd)), snd ?upd)"
    using patchTaskStatus_cross_column [OF k] tr by simp
  have f: "fst ?upd = Some ?u"
    by (simp add: updateTaskStatus_store [OF m] Let_def ip)
  have d: "dense (tasks (snd ?upd)) ?st"
    using ne by (intro updateTaskStatus_dense [OF wf m]) simp
  have e: "\<exists>p. map_of (tasks (snd ?upd)) k = Some (task\<lparr>status := ?st, position := p\<rparr>)"
  proof -
    have "map_of (tasks (snd ?upd)) k
        = Some (reposition (jsSort (finalCmp k) (columnOf (AList.update k ?u (tasks s)) ?st)) 0 ?u)"
      unfolding updateTaskStatus_as_map [OF wf m] Let_def map_of_map_values ip
      using ne by (auto simp add: update_conv')
    then show ?thesis
      by (cases "rank (task_id ?u) (jsSort (finalCmp k) (columnOf (AList.update k ?u (tasks s)) ?st))")
         (auto simp: reposition_def)
  qed
  have r: "k \<noteq> the (b_targetTaskId b) \<Longrightarrow>
          postTaskReorder (Some k) \<lparr>r_targetTaskId = the (b_targetTaskId b), r_position = rp\<rparr> s
            = ((404, JsonMessage ''Source or target task not found''), s)"
    using k missing by (simp add: postTaskReorder_def)
  from code same cross f d e r show ?thesis by simp
qed

text \<open>
  The id 0 names no task either, and the route's test reads it as no target given: a
  same-column move then goes to \<^verbatim>\<open>updateTaskStatus\<close> and writes. On the column A, B, C, moving
  C within "todo" relative to task 0 leaves A, C, B.
\<close>

lemma missing_target_zero_writes:
  "getTask 0 boardABC = None
   \<and> patchTaskStatus (Some 3) (targetBody ''todo'' 0 None) boardABC
       = ((200, JsonTask (Some (mkTask 3 ''C'' ''todo'' 0))),
          storeOf [mkTask 1 ''A'' ''todo'' 0, mkTask 2 ''B'' ''todo'' 2, mkTask 3 ''C'' ''todo'' 1])"
  by (simp add: eval_defs)

text \<open>
  C8, amended. A move of an existing task whose placement names a target task id that does
  not exist does not fail: the request answers 200. When that id is not 0: a cross-column
  move writes the task with the new status, computes its place as if the target were a
  task at position 0, and renumbers the target column 0, ..., N - 1; a same-column move
  writes nothing. Only the reorder endpoint answers 404 for a missing target, and writes
  nothing.
\<close>

theorem move_with_missing_target:
  assumes wf: "wellFormed (tasks s)" and k: "getTask k s = Some task"
    and target: "b_targetTaskId b = Some t"
    and missing: "getTask t s = None"
  shows "fst (fst (patchTaskStatus (Some k) b s)) = 200
     \<and> (t \<noteq> 0 \<longrightarrow>
          (status task = b_status b \<longrightarrow> snd (patchTaskStatus (Some k) b s) = s)
          \<and> (status task \<noteq> b_status b \<longrightarrow>
               fst (patchTaskStatus (Some k) b s)
                 = (200, JsonTask (Some (task\<lparr>status := b_status b, position := Some 0\<rparr>)))
               \<and> (\<exists>p. map_of (tasks (snd (patchTaskStatus (Some k) b s))) k
                         = Some (task\<lparr>status := b_status b, position := p\<rparr>))
               \<and> dense (tasks (snd (patchTaskStatus (Some k) b s))) (b_status b)))
     \<and> (k \<noteq> t \<longrightarrow>
          postTaskReorder (Some k) \<lparr>r_targetTaskId = t, r_position = rp\<rparr> s
            = ((404, JsonMessage ''Source or target task not found''), s))"
proof -
  have code: "fst (fst (patchTaskStatus (Some k) b s)) = 200"
    using k by (simp add: patchTaskStatus_def Let_def case_prod_beta)
  have r: "k \<noteq> t \<longrightarrow>
          postTaskReorder (Some k) \<lparr>r_targetTaskId = t, r_position = rp\<rparr> s
            = ((404, JsonMessage ''Source or target task not found''), s)"
    using k missing by (simp add: postTaskReorder_def)
  have nz: "t \<noteq> 0 \<longrightarrow>
          (status task = b_status b \<longrightarrow> snd (patchTaskStatus (Some k) b s) = s)
          \<and> (status task \<noteq> b_status b \<longrightarrow>
               fst (patchTaskStatus (Some k) b s)
                 = (200, JsonTask (Some (task\<lparr>status := b_status b, position := Some 0\<rparr>)))
               \<and> (\<exists>p. map_of (tasks (snd (patchTaskStatus (Some k) b s))) k
                         = Some (task\<lparr>status := b_status b, position := p\<rparr>))
               \<and> dense (tasks (snd (patchTaskStatus (Some k) b s))) (b_status b))"
  proof
    assume "t \<noteq> 0"
    with target have tr: "truthy (b_targetTaskId b)" by (simp add: truthy_def)
    from target missing have mi: "getTask (the (b_targetTaskId b)) s = None" by simp
    from missing_nonzero_target [OF wf k tr mi, of rp]
    show "(status task = b_status b \<longrightarrow> snd (patchTaskStatus (Some k) b s) = s)
          \<and> (status task \<noteq> b_status b \<longrightarrow>
               fst (patchTaskStatus (Some k) b s)
                 = (200, JsonTask (Some (task\<lparr>status := b_status b, position := Some 0\<rparr>)))
               \<and> (\<exists>p. map_of (tasks (snd (patchTaskStatus (Some k) b s))) k
                         = Some (task\<lparr>status := b_status b, position := p\<rparr>))
               \<and> dense (tasks (snd (patchTaskStatus (Some k) b s))) (b_status b))"
      by blast
  qed
  from code nz r show ?thesis by blast
qed

theorem move_with_missing_target_witness:
  "wellFormed (tasks boardAB) \<and> getTask 1 boardAB = Some (mkTask 1 ''A'' ''todo'' 0)
   \<and> b_targetTaskId (targetBody ''done'' 99 None) = Some 99
   \<and> getTask 99 boardAB = None \<and> (99 :: int) \<noteq> 0 \<and> (1 :: int) \<noteq> 99
   \<and> fst (patchTaskStatus (Some 1) (targetBody ''done'' 99 None) boardAB)
       = (200, JsonTask (Some (mkTask 1 ''A'' ''done'' 0)))
   \<and> dense (tasks (snd (patchTaskStatus (Some 1) (targetBody ''done'' 99 None) boardAB))) ''done''
   \<and> snd (patchTaskStatus (Some 1) (targetBody ''todo'' 99 None) boardAB) = boardAB
   \<and> postTaskReorder (Some 1) \<lparr>r_targetTaskId = 99, r_position = None\<rparr> boardAB
       = ((404, JsonMessage ''Source or target task not found''), boardAB)"
proof -
  have g: "getTask 1 boardAB = Some (mkTask 1 ''A'' ''todo'' 0)"
    by (simp add: getTask_def boardAB_def storeOf_def mkTask_def)
  have tg: "b_targetTaskId (targetBody st 99 None) = Some 99" for st
    by (simp add: targetBody_def)
  have mi: "getTask 99 boardAB = None"
    by (simp add: getTask_def boardAB_def storeOf_def mkTask_def)
  have nz: "(99 :: int) \<noteq> 0" and ne: "(1 :: int) \<noteq> 99" by simp_all
  note th = move_with_missing_target [OF wellFormed_boardAB g tg mi, of "''done''" None]
  note th' = move_with_missing_target [OF wellFormed_boardAB g tg mi, of "''todo''" None]
  have c: "status (mkTask 1 ''A'' ''todo'' 0) \<noteq> b_status (targetBody ''done'' 99 None)"
    by (simp add: mkTask_def targetBody_def)
  have c': "status (mkTask 1 ''A'' ''todo'' 0) = b_status (targetBody ''todo'' 99 None)"
    by (simp add: mkTask_def targetBody_def)
  note cross = th [THEN conjunct2, THEN conjunct1, rule_format, OF nz, THEN conjunct2,
      rule_format, OF c]
  from cross
  have a: "fst (patchTaskStatus (Some 1) (targetBody ''done'' 99 None) boardAB)
       = (200, JsonTask (Some (mkTask 1 ''A'' ''done'' 0)))"
    and d: "dense (tasks (snd (patchTaskStatus (Some 1) (targetBody ''done'' 99 None) boardAB))) ''done''"
    by (simp_all add: mkTask_def targetBody_def)
  from th' [THEN conjunct2, THEN conjunct1, rule_format, OF nz, THEN conjunct1, rule_format, OF c']
  have u: "snd (patchTaskStatus (Some 1) (targetBody ''todo'' 99 None) boardAB) = boardAB" .
  from th [THEN conjunct2, THEN conjunct2, rule_format, OF ne]
  have r: "postTaskReorder (Some 1) \<lparr>r_targetTaskId = 99, r_position = None\<rparr> boardAB
       = ((404, JsonMessage ''Source or target task not found''), boardAB)" .
  from wellFormed_boardAB g tg mi a d u r show ?thesis by simp
qed

subsection \<open>Setting one position\<close>

lemma summary_new:
  "summary (newMemStorage now) =
     [(1, ''todo'', Some 0), (2, ''todo'', Some 1), (3, ''todo'', Some 2), (4, ''todo'', Some 3),
      (5, ''in-progress'', Some 0), (6, ''in-progress'', Some 1), (7, ''in-progress'', Some 2),
      (8, ''done'', Some 0), (9, ''done'', Some 1)]"
  by (simp add: summary_def newMemStorage_def sampleTasks_def sampleTask_def createTask_def Let_def)

lemma summary_upd:
  "summary (snd (updateTaskPosition 2 0 (newMemStorage now))) =
     [(1, ''todo'', Some 0), (2, ''todo'', Some 0), (3, ''todo'', Some 2), (4, ''todo'', Some 3),
      (5, ''in-progress'', Some 0), (6, ''in-progress'', Some 1), (7, ''in-progress'', Some 2),
      (8, ''done'', Some 0), (9, ''done'', Some 1)]"
  by (simp add: summary_def newMemStorage_def sampleTasks_def sampleTask_def createTask_def Let_def updateTaskPosition_def)

text \<open>
  C9. \<^verbatim>\<open>updateTaskPosition(id, p)\<close> writes \<open>p\<close> to task \<open>id\<close> only: every other key maps to
  what it did, no key is added, and nothing is renumbered. On the store the constructor
  builds, \<^verbatim>\<open>updateTaskPosition(2, 0)\<close> leaves tasks 1 and 2 both in "todo" at position 0.
\<close>

theorem updateTaskPosition_single_write:
  "(\<forall>j. j \<noteq> k \<longrightarrow> map_of (tasks (snd (updateTaskPosition k p s))) j = map_of (tasks s) j)
   \<and> map_of (tasks (snd (updateTaskPosition k p s))) k
       = map_option (\<lambda>t. t\<lparr>position := Some p\<rparr>) (map_of (tasks s) k)
   \<and> fst (updateTaskPosition k p s) = map_option (\<lambda>t. t\<lparr>position := Some p\<rparr>) (map_of (tasks s) k)
   \<and> map fst (tasks (snd (updateTaskPosition k p s))) = map fst (tasks s)
   \<and> taskCurrentId (snd (updateTaskPosition k p s)) = taskCurrentId s
   \<and> snd (patchTaskPosition (Some k) p s) = snd (updateTaskPosition k p s)
   \<and> summary (snd (updateTaskPosition 2 0 (newMemStorage now))) =
     [(1, ''todo'', Some 0), (2, ''todo'', Some 0), (3, ''todo'', Some 2), (4, ''todo'', Some 3),
      (5, ''in-progress'', Some 0), (6, ''in-progress'', Some 1), (7, ''in-progress'', Some 2),
      (8, ''done'', Some 0), (9, ''done'', Some 1)]"
proof -
  have keys: "map_of (tasks s) k = Some t \<Longrightarrow> k \<in> fst ` set (tasks s)" for t
    by (metis domI dom_map_of_conv_image_fst)
  have a: "\<forall>j. j \<noteq> k \<longrightarrow> map_of (tasks (snd (updateTaskPosition k p s))) j = map_of (tasks s) j"
    by (auto simp: updateTaskPosition_def Let_def update_conv' split: option.splits)
  have b: "map_of (tasks (snd (updateTaskPosition k p s))) k
       = map_option (\<lambda>t. t\<lparr>position := Some p\<rparr>) (map_of (tasks s) k)"
    by (auto simp: updateTaskPosition_def Let_def update_conv' split: option.splits)
  have c: "fst (updateTaskPosition k p s) = map_option (\<lambda>t. t\<lparr>position := Some p\<rparr>) (map_of (tasks s) k)"
    by (auto simp: updateTaskPosition_def Let_def split: option.splits)
  have d: "map fst (tasks (snd (updateTaskPosition k p s))) = map fst (tasks s)"
    using keys by (auto simp: updateTaskPosition_def Let_def update_keys split: option.splits)
  have e: "taskCurrentId (snd (updateTaskPosition k p s)) = taskCurrentId s"
    by (auto simp: updateTaskPosition_def Let_def split: option.splits)
  have f: "snd (patchTaskPosition (Some k) p s) = snd (updateTaskPosition k p s)"
    by (auto simp: patchTaskPosition_def split: option.splits prod.splits)
  from a b c d e f summary_upd show ?thesis by blast
qed

theorem updateTaskPosition_single_write_witness:
  "(3::int) \<noteq> 2
   \<and> map_of (tasks (snd (updateTaskPosition 2 0 boardABC))) 3 = Some (mkTask 3 ''C'' ''todo'' 2)
   \<and> map_of (tasks (snd (updateTaskPosition 2 0 boardABC))) 1 = Some (mkTask 1 ''A'' ''todo'' 0)
   \<and> map_of (tasks (snd (updateTaskPosition 2 0 boardABC))) 2 = Some (mkTask 2 ''B'' ''todo'' 0)"
proof -
  note th = updateTaskPosition_single_write [of 2 0 boardABC "''2025-01-01''"]
  from th [THEN conjunct1, rule_format, of 3]
  have c: "map_of (tasks (snd (updateTaskPosition 2 0 boardABC))) 3 = Some (mkTask 3 ''C'' ''todo'' 2)"
    by (simp add: boardABC_def storeOf_def mkTask_def)
  from th [THEN conjunct1, rule_format, of 1]
  have a: "map_of (tasks (snd (updateTaskPosition 2 0 boardABC))) 1 = Some (mkTask 1 ''A'' ''todo'' 0)"
    by (simp add: boardABC_def storeOf_def mkTask_def)
  from th [THEN conjunct2, THEN conjunct1]
  have b: "map_of (tasks (snd (updateTaskPosition 2 0 boardABC))) 2 = Some (mkTask 2 ''B'' ''todo'' 0)"
    by (simp add: boardABC_def storeOf_def mkTask_def)
  from a b c show ?thesis by simp
qed

section \<open>The command log\<close>

subsection \<open>A successful command clears the redo stack\<close>

text \<open>
  The provider's \<^verbatim>\<open>executeCommand(cmd)\<close>: whenever \<^verbatim>\<open>cmd.execute()\<close> succeeds, the command is
  pushed onto \<open>past\<close> (\<^verbatim>\<open>commandHistory\<close>) and \<open>future\<close> (\<^verbatim>\<open>redoStack\<close>) is cleared entirely,
  so after any successful \<^verbatim>\<open>executeCommand\<close> the redo stack is empty and \<^verbatim>\<open>canRedo\<close> is
  false, whatever the stacks held before.
\<close>

theorem executeCommand_success_clears_future:
  assumes "execute api command w = (None, command', w')"
  shows "executeCommand api command h w
           = (None, h\<lparr>commandHistory := commandHistory h @ [command'], redoStack := []\<rparr>, w')
       \<and> redoStack (fst (snd (executeCommand api command h w))) = []
       \<and> \<not> canRedo (fst (snd (executeCommand api command h w)))"
  using assms by (simp add: executeCommand_def canRedo_def)

theorem executeCommand_success_clears_future_witness:
  "execute serverApi exampleMove (worldOf boardAB)
     = (None, exampleMove,
        \<lparr>server = storeOf [mkTask 1 ''A'' ''done'' 0, mkTask 2 ''B'' ''todo'' 1],
          invalidations = 1\<rparr>)
   \<and> executeCommand serverApi exampleMove
         \<lparr>commandHistory = [], redoStack = [exampleOther, exampleOther], toasts = []\<rparr>
         (worldOf boardAB)
      = (None, \<lparr>commandHistory = [exampleMove], redoStack = [], toasts = []\<rparr>,
         \<lparr>server = storeOf [mkTask 1 ''A'' ''done'' 0, mkTask 2 ''B'' ''todo'' 1],
           invalidations = 1\<rparr>)"
  using executeCommand_success_clears_future [OF exampleMove_execute,
      of "\<lparr>commandHistory = [], redoStack = [exampleOther, exampleOther], toasts = []\<rparr>"]
    exampleMove_execute by simp

text \<open>The middleware never changes the state of its store, whatever the action.\<close>

lemma commandHistoryMiddleware_state:
  "fst (snd (commandHistoryMiddleware api action state w)) = state"
  by (cases action)
     (auto simp: commandHistoryMiddleware_def Let_def
           split: prod.splits option.splits error.splits list.splits)

lemma middleware_dispatches_results:
  "set (fst (commandHistoryMiddleware api action state w))
     \<subseteq> range EXECUTE_COMMAND_SUCCESS \<union> range EXECUTE_COMMAND_ERROR
       \<union> range UNDO_COMMAND_SUCCESS \<union> range UNDO_COMMAND_ERROR
       \<union> range REDO_COMMAND_SUCCESS \<union> range REDO_COMMAND_ERROR"
  by (cases action)
     (auto simp: commandHistoryMiddleware_def Let_def
           split: prod.splits option.splits error.splits list.splits)

lemma executeCommandMw_state: "fst (executeCommandMw api command state w) = state"
proof -
  have f: "fst (fold (\<lambda>a (state2, w2).
                 case commandHistoryMiddleware api a state2 w2 of
                   (dispatched', state3, w3) \<Rightarrow> (state3, w3)) ds (st, w0)) = st" for ds st w0
  proof (induction ds arbitrary: w0)
    case Nil
    show ?case by simp
  next
    case (Cons a ds)
    obtain d st' w' where c: "commandHistoryMiddleware api a st w0 = (d, st', w')"
      by (cases "commandHistoryMiddleware api a st w0")
    with commandHistoryMiddleware_state [of api a st w0] have "st' = st" by simp
    with c Cons.IH [of w'] show ?case by simp
  qed
  obtain d st1 w1 where c: "commandHistoryMiddleware api (EXECUTE_COMMAND command) state w = (d, st1, w1)"
    by (cases "commandHistoryMiddleware api (EXECUTE_COMMAND command) state w")
  with commandHistoryMiddleware_state [of api "EXECUTE_COMMAND command" state w]
  have "st1 = state" by simp
  with c f [of d state w1] show ?thesis by (simp add: executeCommandMw_def dispatch_def)
qed

text \<open>
  C3. \<^verbatim>\<open>executeCommand(cmd)\<close>: whenever \<^verbatim>\<open>cmd.execute()\<close> succeeds, \<open>cmd\<close> is pushed onto
  \<open>past\<close> and \<open>future\<close> is cleared, so afterwards \<open>future\<close> is empty and \<^verbatim>\<open>canRedo\<close> is false.
  The provider does so (above). The code of the middleware variant, on the board A, B and
  the fresh store: the move of task 1 to "done" executes and succeeds, the success action
  is dispatched, and \<open>past\<close> is still empty; \<^verbatim>\<open>canUndo\<close> is false.
\<close>

theorem middleware_execute_drops_command:
  "fst (execute serverApi exampleMove (worldOf boardAB)) = None
   \<and> commandHistoryMiddleware serverApi (EXECUTE_COMMAND exampleMove) initialState (worldOf boardAB)
       = ([EXECUTE_COMMAND_SUCCESS exampleMove], initialState,
          \<lparr>server = storeOf [mkTask 1 ''A'' ''done'' 0, mkTask 2 ''B'' ''todo'' 1],
            invalidations = 1\<rparr>)
   \<and> executeCommandMw serverApi exampleMove initialState (worldOf boardAB)
       = (\<lparr>past = [], future = []\<rparr>,
          \<lparr>server = storeOf [mkTask 1 ''A'' ''done'' 0, mkTask 2 ''B'' ''todo'' 1],
            invalidations = 1\<rparr>)
   \<and> \<not> canUndoMw (fst (executeCommandMw serverApi exampleMove initialState (worldOf boardAB)))
   \<and> \<not> canRedoMw (fst (executeCommandMw serverApi exampleMove initialState (worldOf boardAB)))"
proof -
  have m: "commandHistoryMiddleware serverApi (EXECUTE_COMMAND exampleMove) initialState
             (worldOf boardAB)
       = ([EXECUTE_COMMAND_SUCCESS exampleMove], initialState,
          \<lparr>server = storeOf [mkTask 1 ''A'' ''done'' 0, mkTask 2 ''B'' ''todo'' 1],
            invalidations = 1\<rparr>)"
    by (simp add: commandHistoryMiddleware_def exampleMove_execute)
  have s: "commandHistoryMiddleware serverApi (EXECUTE_COMMAND_SUCCESS exampleMove) initialState w
             = ([], initialState, w)" for w
    by (simp add: commandHistoryMiddleware_def)
  have e: "executeCommandMw serverApi exampleMove initialState (worldOf boardAB)
       = (\<lparr>past = [], future = []\<rparr>,
          \<lparr>server = storeOf [mkTask 1 ''A'' ''done'' 0, mkTask 2 ''B'' ''todo'' 1],
            invalidations = 1\<rparr>)"
    by (simp add: executeCommandMw_def dispatch_def m s) (simp add: initialState_def)
  from m e exampleMove_execute show ?thesis
    by (simp add: canUndoMw_def canRedoMw_def)
qed

subsection \<open>A failed undo\<close>

text \<open>
  C4 as stated: when \<open>past\<close> is non-empty and the popped command's \<^verbatim>\<open>undo()\<close> fails, the
  command is not returned to \<open>past\<close> and the error is surfaced to the caller. On a history
  holding one command whose undo rejects, \<^verbatim>\<open>undo()\<close> resolves and the command is still
  on \<^verbatim>\<open>commandHistory\<close>.
\<close>

theorem undo_failure_counterexample:
  "undo serverApi \<lparr>commandHistory = [exampleOther], redoStack = [], toasts = []\<rparr>
       (worldOf boardAB)
     = (None,
        \<lparr>commandHistory = [exampleOther], redoStack = [],
          toasts = [Toast ''Undo failed'' ''Could not undo the last action.'' True]\<rparr>,
        worldOf boardAB)"
  by (simp add: eval_defs)

text \<open>
  C4, amended. \<^verbatim>\<open>undo()\<close>: when \<open>past\<close> is non-empty and the \<^verbatim>\<open>undo()\<close> of its top command
  fails, both stacks are left as they were (the command stays on top of \<open>past\<close>), a
  destructive toast "Undo failed" is shown, and the promise \<^verbatim>\<open>undo()\<close> returns resolves.
\<close>

theorem undo_failure_leaves_stacks:
  assumes "commandHistory h \<noteq> []"
    and "undoCommand api (last (commandHistory h)) w = (Some e, w')"
  shows "undo api h w
           = (None,
              h\<lparr>toasts := toasts h @
                  [Toast ''Undo failed'' ''Could not undo the last action.'' True]\<rparr>,
              w')
       \<and> commandHistory (fst (snd (undo api h w))) = commandHistory h
       \<and> redoStack (fst (snd (undo api h w))) = redoStack h"
  using assms by (simp add: undo_def canUndo_def)

theorem undo_failure_leaves_stacks_witness:
  "commandHistory \<lparr>commandHistory = [exampleMove, exampleOther], redoStack = [exampleMove],
                   toasts = []\<rparr> \<noteq> []
   \<and> undoCommand offlineApi exampleOther (worldOf boardAB)
       = (Some (Error ''failed''), worldOf boardAB)
   \<and> undo offlineApi
        \<lparr>commandHistory = [exampleMove, exampleOther], redoStack = [exampleMove], toasts = []\<rparr>
        (worldOf boardAB)
      = (None,
         \<lparr>commandHistory = [exampleMove, exampleOther], redoStack = [exampleMove],
           toasts = [Toast ''Undo failed'' ''Could not undo the last action.'' True]\<rparr>,
         worldOf boardAB)"
proof -
  let ?h = "\<lparr>commandHistory = [exampleMove, exampleOther], redoStack = [exampleMove],
             toasts = []\<rparr>"
  have a: "commandHistory ?h \<noteq> []" by simp
  have b: "undoCommand offlineApi (last (commandHistory ?h)) (worldOf boardAB)
             = (Some (Error ''failed''), worldOf boardAB)"
    by (simp add: exampleOther_def rejects_def)
  from undo_failure_leaves_stacks [OF a b] a b show ?thesis by simp
qed

subsection \<open>A failed execute\<close>

text \<open>Every description of a \<^verbatim>\<open>MoveTaskCommand\<close> includes the text the provider looks for.\<close>

lemma move_description_includes:
  "includesStr (description (MoveTaskCommand k ttl src tgt fn)) ''Move task''"
  by simp

text \<open>
  C5 as stated: when \<^verbatim>\<open>cmd.execute()\<close> fails the stacks are unchanged and the error is
  surfaced to the caller; the log never swallows an error. With the network down, the
  \<^verbatim>\<open>execute()\<close> of a move command rejects, and \<^verbatim>\<open>executeCommand\<close> resolves with the
  history unchanged, toasts included: the error reaches nobody.
\<close>

theorem executeCommand_failure_counterexample:
  "execute offlineApi exampleMove (worldOf boardAB)
     = (Some (Error ''Failed to fetch''), exampleMove, worldOf boardAB)
   \<and> executeCommand offlineApi exampleMove emptyHistory (worldOf boardAB)
     = (None, emptyHistory, worldOf boardAB)"
  by (simp add: eval_defs)

text \<open>
  C5, amended. \<^verbatim>\<open>executeCommand(cmd)\<close>: whenever \<^verbatim>\<open>cmd.execute()\<close> fails, both stacks
  are left unchanged (the command is not pushed) and the error is caught: the returned
  promise resolves, and a destructive toast "Action failed" is shown unless the command's
  description includes "Move task", in which case nothing is shown.
\<close>

theorem executeCommand_failure_keeps_stacks:
  assumes "execute api command w = (Some e, command', w')"
  shows "fst (executeCommand api command h w) = None
       \<and> commandHistory (fst (snd (executeCommand api command h w))) = commandHistory h
       \<and> redoStack (fst (snd (executeCommand api command h w))) = redoStack h
       \<and> toasts (fst (snd (executeCommand api command h w)))
           = (if includesStr (description command) ''Move task'' then toasts h
              else toasts h @
                [Toast ''Action failed'' ''Could not complete the requested action.'' True])
       \<and> snd (snd (executeCommand api command h w)) = w'"
  using assms by (simp add: executeCommand_def Let_def)

theorem executeCommand_failure_keeps_stacks_witness:
  "execute offlineApi exampleFailing (worldOf boardAB)
     = (Some (Error ''failed''), exampleFailing, worldOf boardAB)
   \<and> fst (executeCommand offlineApi exampleFailing movedHistory (worldOf boardAB)) = None
   \<and> commandHistory (fst (snd (executeCommand offlineApi exampleFailing movedHistory
        (worldOf boardAB)))) = [MoveTaskCommand 1 ''Task #1'' ''todo'' ''done'' None]
   \<and> toasts (fst (snd (executeCommand offlineApi exampleFailing movedHistory (worldOf boardAB))))
       = [Toast ''Action failed'' ''Could not complete the requested action.'' True]"
proof -
  have a: "execute offlineApi exampleFailing (worldOf boardAB)
             = (Some (Error ''failed''), exampleFailing, worldOf boardAB)"
    by (simp add: exampleFailing_def rejects_def)
  have d: "\<not> includesStr (description exampleFailing) ''Move task''"
    by (simp add: exampleFailing_def)
  from executeCommand_failure_keeps_stacks [OF a, of movedHistory] a d
  show ?thesis by (simp add: movedHistory_eq)
qed

subsection \<open>Undo of a move\<close>

lemma execute_success_validId:
  "execute api c w = (None, c', w') \<Longrightarrow> validId c'"
  by (cases c) (auto split: if_splits prod.splits option.splits sum.splits)

lemma executeCommand_validId:
  assumes "\<forall>c\<in>set (commandHistory h) \<union> set (redoStack h). validId c"
  shows "\<forall>c\<in>set (commandHistory (fst (snd (executeCommand api command h w))))
            \<union> set (redoStack (fst (snd (executeCommand api command h w)))). validId c"
  using assms
  by (auto simp: executeCommand_def Let_def split: prod.splits option.splits
      dest: execute_success_validId)

lemma undo_validId:
  assumes "\<forall>c\<in>set (commandHistory h) \<union> set (redoStack h). validId c"
  shows "\<forall>c\<in>set (commandHistory (fst (snd (undo api h w))))
            \<union> set (redoStack (fst (snd (undo api h w)))). validId c"
  using assms
  by (auto simp: undo_def canUndo_def Let_def split: prod.splits option.splits
      dest: in_set_butlastD)

lemma redo_validId:
  assumes "\<forall>c\<in>set (commandHistory h) \<union> set (redoStack h). validId c"
  shows "\<forall>c\<in>set (commandHistory (fst (snd (redo api h w))))
            \<union> set (redoStack (fst (snd (redo api h w)))). validId c"
  using assms
  by (auto simp: redo_def canRedo_def Let_def split: prod.splits option.splits
      dest: in_set_butlastD execute_success_validId)

text \<open>A command enters a stack only after its \<^verbatim>\<open>execute()\<close> succeeded, so every move
  command the provider holds passed the id check.\<close>

lemma reachable_validId:
  "reachable h \<Longrightarrow> \<forall>c\<in>set (commandHistory h) \<union> set (redoStack h). validId c"
proof (induction rule: reachable.induct)
  case initial
  show ?case by simp
next
  case (after_execute h api command w)
  from after_execute.IH show ?case by (rule executeCommand_validId)
next
  case (after_undo h api w)
  from after_undo.IH show ?case by (rule undo_validId)
next
  case (after_redo h api w)
  from after_redo.IH show ?case by (rule redo_validId)
qed

text \<open>
  C10. \<^verbatim>\<open>MoveTaskCommand.undo()\<close> catches every error of the status-restore request and
  resolves, so the log's \<^verbatim>\<open>undo()\<close> of a move command always moves the command from \<open>past\<close>
  to \<open>future\<close> and reports success, whatever the request did: the world afterwards is the
  one the request left, restored or not.
\<close>

theorem move_undo_reports_success:
  assumes "reachable h"
    and "commandHistory h = cs @ [MoveTaskCommand k ttl src tgt fn]"
  shows "fst (undoCommand api (MoveTaskCommand k ttl src tgt fn) w) = None
       \<and> undo api h w
           = (None,
              h\<lparr>commandHistory := cs,
                redoStack := redoStack h @ [MoveTaskCommand k ttl src tgt fn],
                toasts := toasts h @
                  [Toast ''Undo successful''
                     (''Undid: '' @ description (MoveTaskCommand k ttl src tgt fn)) False]\<rparr>,
              (case apiRequest api (PatchStatus k (forceTopBody src)) w of
                 (Inr response, w1) \<Rightarrow> invalidateQueries w1
               | (Inl e, w1) \<Rightarrow> w1))"
proof -
  from reachable_validId [OF assms(1)] assms(2) have k: "k > 0" by simp
  then have u: "undoCommand api (MoveTaskCommand k ttl src tgt fn) w
      = (None, case apiRequest api (PatchStatus k (forceTopBody src)) w of
                 (Inr response, w1) \<Rightarrow> invalidateQueries w1
               | (Inl e, w1) \<Rightarrow> w1)"
    by (simp split: prod.splits sum.splits)
  show ?thesis using assms(2) u by (simp add: undo_def canUndo_def)
qed

text \<open>The witness: task 1 was moved to "done"; with the network down its undo leaves it in
  "done", and the log reports "Undo successful" and makes the move redoable.\<close>

theorem move_undo_reports_success_witness:
  "reachable movedHistory
   \<and> commandHistory movedHistory = [] @ [MoveTaskCommand 1 ''Task #1'' ''todo'' ''done'' None]
   \<and> undo offlineApi movedHistory movedWorld
       = (None,
          \<lparr>commandHistory = [],
            redoStack = [MoveTaskCommand 1 ''Task #1'' ''todo'' ''done'' None],
            toasts = [Toast ''Undo successful''
                        (''Undid: '' @ ''Move task '' @ [CHR 0x22] @ ''Task #1'' @ [CHR 0x22]
                          @ '' from todo to done'') False]\<rparr>,
          movedWorld)
   \<and> map_of (tasks (server movedWorld)) 1 = Some (mkTask 1 ''A'' ''done'' 0)"
proof -
  have r: "reachable movedHistory"
    unfolding movedHistory_def emptyHistory_def by (rule after_execute [OF initial])
  have c: "commandHistory movedHistory
             = [] @ [MoveTaskCommand 1 ''Task #1'' ''todo'' ''done'' None]"
    by (simp add: movedHistory_eq)
  have a: "apiRequest offlineApi (PatchStatus 1 (forceTopBody ''todo'')) movedWorld
             = (Inl (Error ''Failed to fetch''), movedWorld)"
    by (simp add: apiRequest_def offlineApi_def)
  from move_undo_reports_success [OF r c, of offlineApi movedWorld] r c a
  show ?thesis by (simp add: movedHistory_eq movedWorld_eq storeOf_def mkTask_def)
qed

subsection \<open>Undo of a reorder\<close>

text \<open>\<^verbatim>\<open>ReorderTaskCommand.undo()\<close> sends no request: the server's store is as it was.\<close>

lemma reorder_undo_writes_nothing:
  "undoCommand api (ReorderTaskCommand st allTasks prev new fn) w = (None, invalidateQueries w)
   \<and> server (snd (undoCommand api (ReorderTaskCommand st allTasks prev new fn) w)) = server w"
  by (simp add: invalidateQueries_def)

text \<open>
  C2. For every reorder command whose \<^verbatim>\<open>execute()\<close> succeeded, \<^verbatim>\<open>undo()\<close> should restore
  the captured ordering of the column by writing the snapshot's positions back. The code
  at the column A, B, C: the command captures the order 1, 2, 3; its execute places task 3
  before task 1; its undo resolves and the column is still 3, 1, 2.
\<close>

theorem reorder_undo_keeps_new_order:
  "map task_id (previousOrder exampleReorder) = [1, 2, 3]
   \<and> (case execute serverApi exampleReorder (worldOf boardABC) of
        (r1, c, w1) \<Rightarrow>
          (case undoCommand serverApi c w1 of
             (r2, w2) \<Rightarrow>
               (r1, map task_id (columnOf (tasks (server w1)) ''todo''),
                r2, map task_id (columnOf (tasks (server w2)) ''todo''),
                map position (columnOf (tasks (server w2)) ''todo''))))
      = (None, [3, 1, 2], None, [3, 1, 2], [Some 0, Some 1, Some 2])"
  by (simp add: eval_defs)

end
